theory Spec2Isabelle
  imports Main "HOL-Library.Multiset" "HOL-Library.Sublist"
begin

section \<open>Python values used by code\_analysis.py\<close>

text \<open>
  Python integers are unbounded and are modelled by \<open>int\<close>; strings by \<open>string\<close>.
  A Python \<open>dict\<close> iterates in insertion order, and two of the listings printed by
  \<open>main\<close> depend on that order, so every dictionary is an association list in
  insertion order whose keys are distinct.  Exceptions are values of \<open>error\<close>.
\<close>

datatype error = KeyError | TypeError | ZeroDivisionError | OverflowError

type_synonym ('k, 'v) dict = "('k \<times> 'v) list"

text \<open>
  \<open>dict_modify k f d kvs\<close> is the idiom \<open>kvs[k] = f(kvs[k])\<close> on a
  \<open>defaultdict\<close> whose factory yields \<open>d\<close> (or on a plain \<open>dict\<close> after
  \<open>if k not in kvs: kvs[k] = d\<close>): a present key keeps its position, an absent
  key is appended.
\<close>

fun dict_modify :: "'k \<Rightarrow> ('v \<Rightarrow> 'v) \<Rightarrow> 'v \<Rightarrow> ('k, 'v) dict \<Rightarrow> ('k, 'v) dict" where
  "dict_modify k f d [] = [(k, f d)]"
| "dict_modify k f d ((k', v) # kvs) =
     (if k' = k then (k', f v) # kvs else (k', v) # dict_modify k f d kvs)"

text \<open>The assignment \<open>kvs[k] = v\<close>.\<close>

definition dict_set :: "'k \<Rightarrow> 'v \<Rightarrow> ('k, 'v) dict \<Rightarrow> ('k, 'v) dict" where
  "dict_set k v kvs = dict_modify k (\<lambda>_. v) v kvs"

text \<open>\<open>sum(d.values())\<close>.\<close>

definition sum_values :: "('k, int) dict \<Rightarrow> int" where
  "sum_values d = sum_list (map snd d)"

text \<open>
  \<open>sorted(items, key=key, reverse=True)\<close>: Python's sort is stable and
  \<open>reverse=True\<close> keeps the original order of items with equal keys, so the result is
  the stable sort by descending key.
\<close>

definition sorted_reverse :: "('a \<Rightarrow> int) \<Rightarrow> 'a list \<Rightarrow> 'a list" where
  "sorted_reverse key xs = sort_key (\<lambda>x. - key x) xs"

text \<open>\<open>s.split(sep)\<close> for a one-character separator.\<close>

fun split_on :: "char \<Rightarrow> string \<Rightarrow> string list" where
  "split_on sep [] = [[]]"
| "split_on sep (c # cs) =
     (if c = sep then [] # split_on sep cs
      else (case split_on sep cs of [] \<Rightarrow> [[c]] | l # ls \<Rightarrow> (c # l) # ls))"

text \<open>\<open>s.rfind(c)\<close>: the index of the last occurrence of \<open>c\<close>, or \<open>-1\<close>.\<close>

fun rfind_from :: "char \<Rightarrow> string \<Rightarrow> int \<Rightarrow> int \<Rightarrow> int" where
  "rfind_from c [] i found = found"
| "rfind_from c (x # xs) i found = rfind_from c xs (i + 1) (if x = c then i else found)"

definition rfind :: "char \<Rightarrow> string \<Rightarrow> int" where
  "rfind c s = rfind_from c s 0 (- 1)"

section \<open>get\_git\_blame\_info\<close>

text \<open>\<open>line.startswith('author ')\<close>.\<close>

definition is_author_line :: "string \<Rightarrow> bool" where
  "is_author_line line \<longleftrightarrow> take 7 line = ''author ''"

definition is_hex :: "char \<Rightarrow> bool" where
  "is_hex c \<longleftrightarrow> c \<in> set ''0123456789abcdef''"

text \<open>\<open>re.match(r'^[0-9a-f]{40}', line)\<close>: the first forty characters are hex digits.\<close>

definition is_commit_line :: "string \<Rightarrow> bool" where
  "is_commit_line line \<longleftrightarrow> 40 \<le> length line \<and> list_all is_hex (take 40 line)"

text \<open>
  The characters \<open>str.split()\<close> treats as white space, in the ASCII range.
\<close>

definition is_space :: "char \<Rightarrow> bool" where
  "is_space c \<longleftrightarrow> of_char c \<in> {9, 10, 11, 12, 13, 28, 29, 30, 31, 32 :: nat}"

text \<open>
  \<open>line.split()[0]\<close>, the first white-space delimited word.  The source evaluates it
  only on a line that matched the commit pattern, which starts with a hex digit, so the
  word list is not empty there and the indexing cannot raise.
\<close>

definition first_word :: "string \<Rightarrow> string" where
  "first_word line = takeWhile (\<lambda>c. \<not> is_space c) (dropWhile is_space line)"

text \<open>
  One iteration of the loop over the lines of the blame output.  The state is
  \<open>(commit_counts, current_commit)\<close>; \<open>current_commit\<close> starts as \<open>None\<close>.
  On an author line \<open>line.replace('author ', '', 1)\<close> removes the first occurrence of
  the prefix, which is the one at index 0.  \<open>current_commit and author\<close> holds when
  neither is \<open>None\<close> nor the empty string.
\<close>

type_synonym blame_info = "(string, int) dict"

definition blame_line :: "string \<Rightarrow> blame_info \<times> string option \<Rightarrow> blame_info \<times> string option" where
  "blame_line line st =
     (case st of (commit_counts, current_commit) \<Rightarrow>
        if is_author_line line then
          (let author = drop 7 line in
           if current_commit \<noteq> None \<and> current_commit \<noteq> Some [] \<and> author \<noteq> [] then
             (dict_modify author (\<lambda>n. n + 1) 0 commit_counts, current_commit)
           else (commit_counts, current_commit))
        else if is_commit_line line then (commit_counts, Some (first_word line))
        else (commit_counts, current_commit))"

definition blame_lines :: "string list \<Rightarrow> blame_info \<times> string option \<Rightarrow> blame_info \<times> string option" where
  "blame_lines ls st = fold blame_line ls st"

text \<open>The parsing part of the function: from \<open>result.stdout\<close> to \<open>commit_counts\<close>.\<close>

definition parse_blame :: "string \<Rightarrow> blame_info" where
  "parse_blame stdout = fst (blame_lines (split_on (CHR 0x0A) stdout) ([], None))"

text \<open>
  The subprocess is an external collaborator: \<open>run_blame file_path\<close> is
  \<open>Some stdout\<close> when \<open>git blame --line-porcelain\<close> succeeds and \<open>None\<close> when it
  exits with an error (\<open>CalledProcessError\<close>), in which case the function prints a
  message and returns the empty dictionary.
\<close>

definition get_git_blame_info :: "(string \<Rightarrow> string option) \<Rightarrow> string \<Rightarrow> blame_info" where
  "get_git_blame_info run_blame file_path =
     (case run_blame file_path of
        None \<Rightarrow> []
      | Some stdout \<Rightarrow> parse_blame stdout)"

section \<open>Path helpers from the standard library\<close>

text \<open>
  \<open>os.path.splitext(p)[1]\<close> on POSIX, following \<open>genericpath._splitext\<close>:
  with \<open>sepIndex = p.rfind('/')\<close> and \<open>dotIndex = p.rfind('.')\<close>, the extension is
  \<open>p[dotIndex:]\<close> when the last dot lies after the last separator and some character
  of \<open>p[sepIndex+1:dotIndex]\<close> is not a dot; the empty string otherwise (leading dots
  of the last component belong to the root).
\<close>

definition splitext_ext :: "string \<Rightarrow> string" where
  "splitext_ext p =
     (let sepIndex = rfind (CHR ''/'') p; dotIndex = rfind (CHR ''.'') p in
      if dotIndex > sepIndex \<and>
         list_ex (\<lambda>c. c \<noteq> CHR ''.'')
           (take (nat (dotIndex - (sepIndex + 1))) (drop (nat (sepIndex + 1)) p))
      then drop (nat dotIndex) p
      else [])"

text \<open>
  \<open>Path(p).parts\<close> for a POSIX path: the root (\<open>/\<close>, or \<open>//\<close> for exactly two
  leading slashes) when the path is absolute, then the components of the rest, without
  the empty ones and without the \<open>.\<close> ones.
\<close>

definition parts :: "string \<Rightarrow> string list" where
  "parts p =
     (let (root, rel) =
        (if take 1 p \<noteq> ''/'' then ([], p)
         else if take 1 (drop 1 p) \<noteq> ''/'' \<or> take 1 (drop 2 p) = ''/'' then (''/'', drop 1 p)
         else (''//'', drop 2 p))
      in (if root = [] then [] else [root]) @
         filter (\<lambda>x. x \<noteq> [] \<and> x \<noteq> ''.'') (split_on (CHR ''/'') rel))"

section \<open>The aggregation loop of main\<close>

text \<open>
  The five variables the loop updates.  An entry of \<open>extension_stats\<close> is the pair
  \<open>(files, lines)\<close> of the dictionary \<open>{'files': .., 'lines': ..}\<close>.
\<close>

record stats =
  author_ext_stats :: "(string, (string, int) dict) dict"
  extension_stats :: "(string, int \<times> int) dict"
  author_stats :: "(string, int) dict"
  blame_data :: "(string, blame_info) dict"
  total_lines :: int

definition initial_stats :: stats where
  "initial_stats = \<lparr>author_ext_stats = [], extension_stats = [], author_stats = [],
                    blame_data = [], total_lines = 0\<rparr>"

text \<open>The inner loop \<open>for author, count in blame_info.items()\<close>; \<open>cnt\<close> is the
  source's \<open>count\<close>.\<close>

definition add_author :: "string \<Rightarrow> string \<times> int \<Rightarrow> stats \<Rightarrow> stats" where
  "add_author ext item s =
     (case item of (author, cnt) \<Rightarrow>
        s\<lparr>author_stats := dict_modify author (\<lambda>n. n + cnt) 0 (author_stats s),
          author_ext_stats :=
            dict_modify author (dict_modify ext (\<lambda>n. n + cnt) 0) [] (author_ext_stats s)\<rparr>)"

text \<open>The body of \<open>for file_path in tracked_files\<close>.\<close>

definition add_file :: "(string \<Rightarrow> string option) \<Rightarrow> string \<Rightarrow> stats \<Rightarrow> stats" where
  "add_file run_blame file_path s =
     (let blame_info = get_git_blame_info run_blame file_path;
          file_lines = sum_values blame_info;
          ext = splitext_ext file_path
      in fold (add_author ext) blame_info
           (s\<lparr>blame_data := dict_set file_path blame_info (blame_data s),
              total_lines := total_lines s + file_lines,
              extension_stats :=
                dict_modify ext (\<lambda>(files, lines). (files + 1, lines + file_lines)) (0, 0)
                  (extension_stats s)\<rparr>))"

definition collect :: "(string \<Rightarrow> string option) \<Rightarrow> string list \<Rightarrow> stats" where
  "collect run_blame tracked_files = fold (add_file run_blame) tracked_files initial_stats"

section \<open>build\_directory\_tree\<close>

text \<open>
  A directory node is the dictionary \<open>{'files': .., 'lines': .., 'subdirs': ..}\<close>.
  The root is a different object: a \<open>defaultdict\<close> that gets its only key,
  \<open>'subdirs'\<close>, when the first file with a directory component is processed, and
  that never has \<open>'files'\<close> or \<open>'lines'\<close>.  It is modelled by the option of its
  \<open>'subdirs'\<close> dictionary.
\<close>

datatype dir_node = Node (files: int) (lines: int) (subdirs: "(string \<times> dir_node) list")

type_synonym dir_tree = "(string \<times> dir_node) list option"

text \<open>
  The inner loop \<open>for i, part in enumerate(parts[:-1])\<close>, started at a node whose
  \<open>'subdirs'\<close> is \<open>subs\<close>: the node for \<open>part\<close> is created when absent, its counters
  are incremented, and the walk continues inside it.  The source mutates the nodes
  through the alias \<open>current\<close>; the model returns the updated \<open>'subdirs'\<close>.
\<close>

fun add_path :: "string list \<Rightarrow> int \<Rightarrow> (string \<times> dir_node) list \<Rightarrow> (string \<times> dir_node) list" where
  "add_path [] file_lines subs = subs"
| "add_path (part # rest) file_lines subs =
     dict_modify part
       (\<lambda>n. Node (files n + 1) (lines n + file_lines) (add_path rest file_lines (subdirs n)))
       (Node 0 0 []) subs"

definition tree_add :: "string list \<Rightarrow> int \<Rightarrow> dir_tree \<Rightarrow> dir_tree" where
  "tree_add dirs file_lines tree =
     (if dirs = [] then tree
      else Some (add_path dirs file_lines (case tree of None \<Rightarrow> [] | Some subs \<Rightarrow> subs)))"

text \<open>
  The outer loop; \<open>bd\<close> is the parameter \<open>blame_data\<close>.  \<open>blame_data[file_path]\<close>
  raises \<open>KeyError\<close> for a path that is not a key.
\<close>

fun build_from :: "dir_tree \<Rightarrow> string list \<Rightarrow> (string, blame_info) dict \<Rightarrow> error + dir_tree" where
  "build_from tree [] bd = Inr tree"
| "build_from tree (file_path # rest) bd =
     (case map_of bd file_path of
        None \<Rightarrow> Inl KeyError
      | Some blame_info \<Rightarrow>
          build_from (tree_add (butlast (parts file_path)) (sum_values blame_info) tree) rest bd)"

definition build_directory_tree :: "string list \<Rightarrow> (string, blame_info) dict \<Rightarrow> error + dir_tree" where
  "build_directory_tree tracked_files bd = build_from None tracked_files bd"

section \<open>The renderer\<close>

text \<open>
  \<open>part / whole\<close> on two integers is Python's true division: the quotient is
  rounded to the nearest double (ties to even); a zero divisor raises
  \<open>ZeroDivisionError\<close> and a quotient that rounds beyond the largest double raises
  \<open>OverflowError\<close>.  The largest double is \<open>2^1024 - 2^971\<close>, so the quotient
  overflows exactly when its absolute value reaches \<open>2^1024 - 2^970\<close>.
\<close>

definition true_div_overflows :: "int \<Rightarrow> int \<Rightarrow> bool" where
  "true_div_overflows a b \<longleftrightarrow> (2 ^ 1024 - 2 ^ 970) * \<bar>b\<bar> \<le> \<bar>a\<bar>"

text \<open>
  The comparison \<open>a / b > 0.01\<close> for \<open>b \<noteq> 0\<close>.  The literal \<open>0.01\<close> is the
  double \<open>5764607523034235 / 2^59\<close>, whose significand is odd; the rounded quotient
  is above it exactly when the exact quotient is at least the midpoint to the next
  double, \<open>11529215046068471 / 2^60\<close>.
\<close>

definition true_div_gt_001 :: "int \<Rightarrow> int \<Rightarrow> bool" where
  "true_div_gt_001 a b \<longleftrightarrow>
     (if 0 < b then 11529215046068471 * b \<le> a * 2 ^ 60
      else a * 2 ^ 60 \<le> 11529215046068471 * b)"

text \<open>The test \<open>lines / total_lines > 0.01\<close> of \<open>print_directory_tree\<close>.\<close>

definition above_threshold :: "int \<Rightarrow> int \<Rightarrow> error + bool" where
  "above_threshold n total_lines' =
     (if total_lines' = 0 then Inl ZeroDivisionError
      else if true_div_overflows n total_lines' then Inl OverflowError
      else Inr (true_div_gt_001 n total_lines'))"

text \<open>
  \<open>format_percentage\<close>.  The text of the f-string \<open>{(part / whole) * 100:5.1f}%\<close> is
  not modelled: \<open>fmt part whole\<close> stands for it.
\<close>

definition format_percentage :: "(int \<Rightarrow> int \<Rightarrow> string) \<Rightarrow> int \<Rightarrow> int \<Rightarrow> error + string" where
  "format_percentage fmt part whole =
     (if whole = 0 then Inr ''0.0%''
      else if true_div_overflows part whole then Inl OverflowError
      else Inr (fmt part whole))"

text \<open>
  The printed lines.  A prefix is a sequence of the four fixed pieces the source
  concatenates: the corner and the tee (each followed by two dashes and a space), four
  spaces, and the bar followed by three spaces.  \<open>DirLine current_prefix dir_name\<close>
  is the first \<open>print\<close> of the loop body, \<open>StatsLine next_prefix lines percentage files\<close>
  the second.
\<close>

datatype piece = Corner | Tee | Blank | Bar

datatype out_line =
  DirLine "piece list" string
| StatsLine "piece list" int string int

text \<open>
  The loop of \<open>print_directory_tree\<close> over the sorted items of a \<open>'subdirs'\<close>
  dictionary; \<open>prefix'\<close> and \<open>total_lines'\<close> are the parameters \<open>prefix\<close> and
  \<open>total_lines\<close>.  \<open>format_percentage\<close> is
  called before the threshold test, as in the source.  An exception ends the call:
  the result is then the exception, and the lines printed before it are dropped.
\<close>

function print_items ::
  "(int \<Rightarrow> int \<Rightarrow> string) \<Rightarrow> (string \<times> dir_node) list \<Rightarrow> piece list \<Rightarrow> bool \<Rightarrow> int
     \<Rightarrow> error + out_line list" where
  "print_items fmt [] prefix' is_last total_lines' = Inr []"
| "print_items fmt ((dir_name, data) # rest) prefix' is_last total_lines' =
     (let current_prefix = prefix' @ [if is_last then Corner else Tee];
          next_prefix = prefix' @ [if is_last then Blank else Bar]
      in case format_percentage fmt (lines data) total_lines' of
           Inl e \<Rightarrow> Inl e
         | Inr percentage \<Rightarrow>
        (case above_threshold (lines data) total_lines' of
           Inl e \<Rightarrow> Inl e
         | Inr shown \<Rightarrow>
        (case (if shown then
                 (case (if subdirs data \<noteq> [] then
                          print_items fmt (sorted_reverse (\<lambda>x. lines (snd x)) (subdirs data))
                            next_prefix is_last total_lines'
                        else Inr []) of
                    Inl e \<Rightarrow> Inl e
                  | Inr below \<Rightarrow>
                      Inr (DirLine current_prefix dir_name
                           # StatsLine next_prefix (lines data) percentage (files data)
                           # below))
               else Inr []) of
           Inl e \<Rightarrow> Inl e
         | Inr here \<Rightarrow>
        (case print_items fmt rest prefix' is_last total_lines' of
           Inl e \<Rightarrow> Inl e
         | Inr later \<Rightarrow> Inr (here @ later)))))"
  by pat_completeness auto
termination
proof (relation "measure (\<lambda>(fmt, items, rest). size_list (\<lambda>x. size (snd x)) items)")
  show "wf (measure (\<lambda>(fmt, items, rest). size_list (\<lambda>x. size (snd x)) items))"
    by simp
next
  fix fmt :: "int \<Rightarrow> int \<Rightarrow> string" and dir_name :: string and data :: dir_node
    and rest :: "(string \<times> dir_node) list" and prefix' next_prefix :: "piece list"
    and is_last :: bool and total_lines' :: int
  let ?f = "\<lambda>x :: string \<times> dir_node. size (snd x)"
  let ?sorted = "sorted_reverse (\<lambda>x. lines (snd x)) (subdirs data)"
  have "mset (map ?f ?sorted) = mset (map ?f (subdirs data))"
    by (simp add: sorted_reverse_def)
  then have "sum_mset (mset (map ?f ?sorted)) = sum_mset (mset (map ?f (subdirs data)))"
    by (rule arg_cong)
  then have "sum_list (map ?f ?sorted) = sum_list (map ?f (subdirs data))"
    by (simp only: sum_mset_sum_list)
  then have same: "size_list ?f ?sorted = size_list ?f (subdirs data)"
    by (simp add: size_list_conv_sum_list sorted_reverse_def)
  have less: "size_list ?f (subdirs data) < size data"
  proof (cases data)
    case (Node n m subs)
    have "sum_list (map ?f subs) \<le> sum_list (map (size_prod (\<lambda>x. 0) size) subs)"
      by (rule sum_list_mono) (auto split: prod.splits)
    with Node show ?thesis
      by (simp add: size_list_conv_sum_list)
  qed
  from same less
  show "((fmt, ?sorted, next_prefix, is_last, total_lines'),
           fmt, (dir_name, data) # rest, prefix', is_last, total_lines')
          \<in> measure (\<lambda>(fmt, items, rest). size_list (\<lambda>x. size (snd x)) items)"
    by simp
next
  fix fmt :: "int \<Rightarrow> int \<Rightarrow> string" and dir_name :: string and data :: dir_node
    and rest :: "(string \<times> dir_node) list" and prefix' :: "piece list" and is_last :: bool
    and total_lines' :: int
  show "((fmt, rest, prefix', is_last, total_lines'),
           fmt, (dir_name, data) # rest, prefix', is_last, total_lines')
          \<in> measure (\<lambda>(fmt, items, rest). size_list (\<lambda>x. size (snd x)) items)"
    by simp
qed

text \<open>
  \<open>print_directory_tree\<close> called on the root, as \<open>main\<close> does.  When the root has no
  \<open>'subdirs'\<close> key, \<open>tree['subdirs']\<close> makes the \<open>defaultdict\<close> insert the
  factory's value, the dictionary \<open>{'files': 0, 'lines': 0, 'subdirs': ..}\<close>; its first
  item is \<open>('files', 0)\<close>, on which the sort key \<open>x[1]['lines']\<close> raises
  \<open>TypeError\<close>.
\<close>

definition print_directory_tree ::
  "(int \<Rightarrow> int \<Rightarrow> string) \<Rightarrow> dir_tree \<Rightarrow> piece list \<Rightarrow> bool \<Rightarrow> int \<Rightarrow> error + out_line list" where
  "print_directory_tree fmt tree prefix' is_last total_lines' =
     (case tree of
        None \<Rightarrow> Inl TypeError
      | Some subs \<Rightarrow>
          print_items fmt (sorted_reverse (\<lambda>x. lines (snd x)) subs) prefix' is_last total_lines')"

section \<open>The report of main\<close>

text \<open>
  The three listings iterate over the sorted items of a table.  The text of a table row
  is not modelled, only the sequence of items printed.  \<open>author_ext_stats[author]\<close>
  is a \<open>defaultdict\<close> lookup: an absent author has no items.
\<close>

definition extension_listing :: "stats \<Rightarrow> (string \<times> int \<times> int) list" where
  "extension_listing s = sorted_reverse (\<lambda>x. snd (snd x)) (extension_stats s)"

definition author_listing :: "stats \<Rightarrow> (string \<times> int) list" where
  "author_listing s = sorted_reverse snd (author_stats s)"

definition author_extension_listing :: "stats \<Rightarrow> string \<Rightarrow> (string \<times> int) list" where
  "author_extension_listing s author =
     sorted_reverse snd (case map_of (author_ext_stats s) author of None \<Rightarrow> [] | Some d \<Rightarrow> d)"

text \<open>
  What \<open>main\<close> prints once the tracked files are known: the two summary numbers, the
  three listings and the directory breakdown.
\<close>

datatype report = Report
  (shown_total: int)
  (files_analyzed: int)
  (extension_rows: "(string \<times> int \<times> int) list")
  (author_rows: "(string \<times> int) list")
  (contributor_rows: "(string \<times> (string \<times> int) list) list")
  (directory_lines: "out_line list")

text \<open>
  \<open>main\<close> after argument parsing, with the list of tracked files and the blame
  subprocess as inputs.  With no tracked file it prints a message and returns
  (\<open>Inr None\<close>).  Otherwise it runs the aggregation loop, builds the tree, prints the
  tables and then the directory tree from the root with the empty prefix,
  \<open>is_last=True\<close> and the grand total.
\<close>

definition analyze ::
  "(int \<Rightarrow> int \<Rightarrow> string) \<Rightarrow> (string \<Rightarrow> string option) \<Rightarrow> string list \<Rightarrow> error + report option" where
  "analyze fmt run_blame tracked_files =
     (if tracked_files = [] then Inr None
      else
        let s = collect run_blame tracked_files in
        case build_directory_tree tracked_files (blame_data s) of
          Inl e \<Rightarrow> Inl e
        | Inr dir_tree \<Rightarrow>
            (case print_directory_tree fmt dir_tree [] True (total_lines s) of
               Inl e \<Rightarrow> Inl e
             | Inr dirs \<Rightarrow>
                 Inr (Some (Report (total_lines s) (int (length tracked_files))
                        (extension_listing s) (author_listing s)
                        (map (\<lambda>(author, n). (author, author_extension_listing s author))
                           (author_listing s))
                        dirs))))"

section \<open>Notions used to state the properties\<close>

subsection \<open>The porcelain format\<close>

text \<open>
  \<open>git blame --line-porcelain\<close> prints, for every line of the file, a header line that
  starts with the forty hex digits of the commit, then metadata lines, one of which is
  \<open>author\<close> followed by a space and the author's name, then the line itself after a
  TAB.  Every line ends with a newline, so the list of lines that \<open>split\<close> returns
  ends with an empty string.  The name on the author line is required to be non-empty.
\<close>

definition is_content_line :: "string \<Rightarrow> bool" where
  "is_content_line line \<longleftrightarrow> take 1 line = [CHR 0x09]"

datatype expect = Header | Author | Content

fun well_formed_from :: "expect \<Rightarrow> string list \<Rightarrow> bool" where
  "well_formed_from e [] = False"
| "well_formed_from Header (l # ls) =
     (if ls = [] then l = [] else is_commit_line l \<and> well_formed_from Author ls)"
| "well_formed_from Author (l # ls) =
     (if is_author_line l then drop 7 l \<noteq> [] \<and> well_formed_from Content ls
      else \<not> is_commit_line l \<and> \<not> is_content_line l \<and> well_formed_from Author ls)"
| "well_formed_from Content (l # ls) =
     (if is_content_line l then well_formed_from Header ls
      else \<not> is_author_line l \<and> \<not> is_commit_line l \<and> well_formed_from Content ls)"

definition well_formed_porcelain :: "string \<Rightarrow> bool" where
  "well_formed_porcelain stdout = well_formed_from Header (split_on (CHR 0x0A) stdout)"

definition content_lines :: "string \<Rightarrow> nat" where
  "content_lines stdout = length (filter is_content_line (split_on (CHR 0x0A) stdout))"

text \<open>The text whose lines are \<open>ls\<close>, each ended by a newline.\<close>

definition text_of :: "string list \<Rightarrow> string" where
  "text_of ls = concat (map (\<lambda>l. l @ [CHR 0x0A]) ls)"

subsection \<open>Order of first encounter\<close>

text \<open>The elements of a list in the order of their first occurrence.\<close>

fun first_seen :: "'a list \<Rightarrow> 'a list" where
  "first_seen [] = []"
| "first_seen (x # xs) = x # filter (\<lambda>y. y \<noteq> x) (first_seen xs)"

subsection \<open>The tables as functions of the input\<close>

text \<open>
  The contributions the aggregation loop reads, in the order it reads them: one triple
  \<open>(ext, author, count)\<close> for every item of every file's blame dictionary.
\<close>

definition entries :: "(string \<Rightarrow> string option) \<Rightarrow> string list \<Rightarrow> (string \<times> string \<times> int) list" where
  "entries run_blame tracked_files =
     concat (map (\<lambda>f. map (\<lambda>x. (splitext_ext f, x)) (get_git_blame_info run_blame f))
       tracked_files)"

text \<open>A counter read with the default a \<open>defaultdict(int)\<close> would give.\<close>

definition count_of :: "('k, int) dict \<Rightarrow> 'k \<Rightarrow> int" where
  "count_of d k = (case map_of d k of None \<Rightarrow> 0 | Some n \<Rightarrow> n)"

text \<open>\<open>author_ext_stats[author]\<close>, the inner dictionary (empty for an absent author).\<close>

definition ext_counts_of :: "stats \<Rightarrow> string \<Rightarrow> (string, int) dict" where
  "ext_counts_of s author =
     (case map_of (author_ext_stats s) author of None \<Rightarrow> [] | Some d \<Rightarrow> d)"

text \<open>The two fields of an extension's entry, 0 for an extension with no entry.\<close>

definition ext_files_of :: "stats \<Rightarrow> string \<Rightarrow> int" where
  "ext_files_of s ext = (case map_of (extension_stats s) ext of None \<Rightarrow> 0 | Some x \<Rightarrow> fst x)"

definition ext_lines_of :: "stats \<Rightarrow> string \<Rightarrow> int" where
  "ext_lines_of s ext = (case map_of (extension_stats s) ext of None \<Rightarrow> 0 | Some x \<Rightarrow> snd x)"

subsection \<open>Reading the directory tree\<close>

text \<open>
  The node reached from a \<open>'subdirs'\<close> dictionary by a path of directory names, and
  the same from the root.  The empty path names the root, which is not a node.
\<close>

fun node_at :: "(string \<times> dir_node) list \<Rightarrow> string list \<Rightarrow> dir_node option" where
  "node_at subs [] = None"
| "node_at subs [d] = map_of subs d"
| "node_at subs (d # e # ds) =
     (case map_of subs d of None \<Rightarrow> None | Some n \<Rightarrow> node_at (subdirs n) (e # ds))"

definition dir_at :: "dir_tree \<Rightarrow> string list \<Rightarrow> dir_node option" where
  "dir_at tree ds = (case tree of None \<Rightarrow> None | Some subs \<Rightarrow> node_at subs ds)"

text \<open>The counters of the directory at a path, 0 where the tree has no such node.\<close>

definition files_in :: "dir_tree \<Rightarrow> string list \<Rightarrow> int" where
  "files_in tree ds = (case dir_at tree ds of None \<Rightarrow> 0 | Some n \<Rightarrow> files n)"

definition lines_in :: "dir_tree \<Rightarrow> string list \<Rightarrow> int" where
  "lines_in tree ds = (case dir_at tree ds of None \<Rightarrow> 0 | Some n \<Rightarrow> lines n)"

text \<open>The sum of the \<open>'lines'\<close> of the nodes of a \<open>'subdirs'\<close> dictionary.\<close>

definition children_lines :: "(string \<times> dir_node) list \<Rightarrow> int" where
  "children_lines subs = sum_list (map (\<lambda>x. lines (snd x)) subs)"

text \<open>The same sum for the children of the directory at a path.\<close>

definition kids_lines_in :: "dir_tree \<Rightarrow> string list \<Rightarrow> int" where
  "kids_lines_in tree ds =
     (case dir_at tree ds of None \<Rightarrow> 0 | Some n \<Rightarrow> children_lines (subdirs n))"

text \<open>The children of the root.\<close>

definition root_subdirs :: "dir_tree \<Rightarrow> (string \<times> dir_node) list" where
  "root_subdirs tree = (case tree of None \<Rightarrow> [] | Some subs \<Rightarrow> subs)"

subsection \<open>An example repository\<close>

text \<open>
  The end-to-end scenario of the specification: \<open>a.py\<close> with ten lines by Alice and
  \<open>sub/b.py\<close> with five lines by Bob; blame fails for every other path.
\<close>

definition blame_block :: "string \<Rightarrow> string list" where
  "blame_block author =
     [''0123456789abcdef0123456789abcdef01234567 1 1 1'', ''author '' @ author,
      ''filename f'', CHR 0x09 # ''pass'']"

definition example_blame :: "string \<Rightarrow> string option" where
  "example_blame p =
     (if p = ''a.py'' then Some (text_of (concat (replicate 10 (blame_block ''Alice''))))
      else if p = ''sub/b.py'' then Some (text_of (concat (replicate 5 (blame_block ''Bob''))))
      else None)"

text \<open>
  The names of the subdirectories of the directory at a path, in dictionary order; the
  empty path stands for the root.
\<close>

definition kids_at :: "dir_tree \<Rightarrow> string list \<Rightarrow> string list" where
  "kids_at tree qs =
     (if qs = [] then map fst (root_subdirs tree)
      else case dir_at tree qs of None \<Rightarrow> [] | Some n \<Rightarrow> map fst (subdirs n))"

subsection \<open>The extension of a path\<close>




subsection \<open>The rendering of the tree\<close>



section \<open>Dictionaries\<close>

lemma map_of_dict_modify:
  "map_of (dict_modify k f d kvs) =
     (map_of kvs)(k \<mapsto> f (case map_of kvs k of None \<Rightarrow> d | Some v \<Rightarrow> v))"
  by (induction kvs) (auto simp: fun_eq_iff)

lemma keys_dict_modify:
  "map fst (dict_modify k f d kvs) =
     (if k \<in> fst ` set kvs then map fst kvs else map fst kvs @ [k])"
  by (induction kvs) (force simp: image_iff)+

lemma distinct_dict_modify:
  "distinct (map fst kvs) \<Longrightarrow> distinct (map fst (dict_modify k f d kvs))"
  by (simp add: keys_dict_modify)

lemma sum_dict_modify:
  fixes w :: "'v \<Rightarrow> int"
  shows "sum_list (map (\<lambda>x. w (snd x)) (dict_modify k f d kvs)) =
     sum_list (map (\<lambda>x. w (snd x)) kvs)
       + (case map_of kvs k of None \<Rightarrow> w (f d) | Some v \<Rightarrow> w (f v) - w v)"
  by (induction kvs) (auto split: option.splits)

lemma sum_values_count: "sum_values (dict_modify k (\<lambda>n. n + c) 0 kvs) = sum_values kvs + c"
  using sum_dict_modify [of "\<lambda>v. v" k "\<lambda>n. n + c" 0 kvs]
  by (simp add: sum_values_def split: option.splits)

section \<open>The blame parser\<close>

lemma is_hex_not_space: "is_hex c \<Longrightarrow> \<not> is_space c"
  by (auto simp: is_hex_def is_space_def)

lemma first_word_commit: "is_commit_line l \<Longrightarrow> first_word l \<noteq> []"
proof -
  assume c: "is_commit_line l"
  then obtain x xs where l: "l = x # xs" by (cases l) (auto simp: is_commit_line_def)
  with c have "is_hex x" by (simp add: is_commit_line_def)
  then have "\<not> is_space x" by (rule is_hex_not_space)
  with l show ?thesis by (simp add: first_word_def)
qed



lemma author_lineD: "is_author_line l \<Longrightarrow> l = ''author '' @ drop 7 l"
  unfolding is_author_line_def by (metis append_take_drop_id)

lemma content_lineD: "is_content_line l \<Longrightarrow> l = CHR 0x09 # tl l"
  unfolding is_content_line_def by (cases l) simp_all

lemma commit_lineD: "is_commit_line l \<Longrightarrow> \<exists>x y r. l = x # y # r \<and> is_hex x \<and> is_hex y"
proof -
  assume c: "is_commit_line l"
  then obtain x y r where l: "l = x # y # r"
    by (cases l; cases "tl l") (auto simp: is_commit_line_def)
  with c show ?thesis by (simp add: is_commit_line_def)
qed

lemma author_not_commit: "is_author_line l \<Longrightarrow> \<not> is_commit_line l"
proof
  assume "is_author_line l" and "is_commit_line l"
  then obtain x y r where "''author '' @ drop 7 l = x # y # r" "is_hex y"
    using author_lineD commit_lineD by metis
  then show False by (auto simp: is_hex_def)
qed

lemma content_not_commit: "is_content_line l \<Longrightarrow> \<not> is_commit_line l"
proof
  assume "is_content_line l" and "is_commit_line l"
  then obtain x y r where "CHR 0x09 # tl l = x # y # r" "is_hex x"
    using content_lineD commit_lineD by metis
  then show False by (auto simp: is_hex_def)
qed

lemma content_not_author: "is_content_line l \<Longrightarrow> \<not> is_author_line l"
proof
  assume "is_content_line l" and "is_author_line l"
  then have "CHR 0x09 # tl l = ''author '' @ drop 7 l"
    using content_lineD author_lineD by metis
  then show False by simp
qed

lemma blame_line_sum:
  "sum_values (fst (blame_line line st)) =
     sum_values (fst st) +
       (if is_author_line line \<and> snd st \<noteq> None \<and> snd st \<noteq> Some [] \<and> drop 7 line \<noteq> [] then 1 else 0)"
  by (cases st) (simp add: blame_line_def Let_def sum_values_count)

lemma blame_line_other:
  "\<not> is_author_line line \<Longrightarrow> \<not> is_commit_line line \<Longrightarrow> blame_line line st = st"
  by (cases st) (simp add: blame_line_def)

lemma blame_line_key:
  "a \<noteq> drop 7 line \<Longrightarrow> map_of (fst (blame_line line st)) a = map_of (fst st) a"
  by (cases st) (simp add: blame_line_def Let_def map_of_dict_modify)

lemma blame_lines_le:
  "sum_values (fst (blame_lines ls st)) \<le> sum_values (fst st) + int (length (filter is_author_line ls))"
proof (induction ls arbitrary: st)
  case Nil
  show ?case by (simp add: blame_lines_def)
next
  case (Cons l ls)
  have "sum_values (fst (blame_lines (l # ls) st)) = sum_values (fst (blame_lines ls (blame_line l st)))"
    by (simp add: blame_lines_def)
  also have "\<dots> \<le> sum_values (fst (blame_line l st)) + int (length (filter is_author_line ls))"
    by (rule Cons.IH)
  also have "\<dots> \<le> sum_values (fst st) + int (length (filter is_author_line (l # ls)))"
    by (simp add: blame_line_sum)
  finally show ?case .
qed

lemma well_formed_sum:
  "well_formed_from e ls \<Longrightarrow> (e \<noteq> Header \<longrightarrow> cur \<noteq> None \<and> cur \<noteq> Some []) \<Longrightarrow>
   sum_values (fst (blame_lines ls (cc, cur))) =
     sum_values cc + int (length (filter is_content_line ls)) - (if e = Content then 1 else 0)"
proof (induction e ls arbitrary: cc cur rule: well_formed_from.induct)
  case (1 e)
  then show ?case by simp
next
  case (2 l ls)
  show ?case
  proof (cases "ls = []")
    case True
    with 2 show ?thesis
      by (simp add: blame_lines_def blame_line_def is_author_line_def is_commit_line_def
          is_content_line_def)
  next
    case False
    with 2 have c: "is_commit_line l" and w: "well_formed_from Author ls" by simp_all
    from c have na: "\<not> is_author_line l" and nc: "\<not> is_content_line l"
      using author_not_commit content_not_commit by blast+
    have "blame_line l (cc, cur) = (cc, Some (first_word l))"
      using na c by (simp add: blame_line_def)
    then have "sum_values (fst (blame_lines (l # ls) (cc, cur))) =
        sum_values (fst (blame_lines ls (cc, Some (first_word l))))"
      by (simp add: blame_lines_def)
    also have "\<dots> = sum_values cc + int (length (filter is_content_line ls)) - (if Author = Content then 1 else 0)"
      using False w first_word_commit [OF c] by (intro "2.IH") simp_all
    finally show ?thesis using nc by simp
  qed
next
  case (3 l ls)
  from "3.prems" have live: "cur \<noteq> None" "cur \<noteq> Some []" by simp_all
  show ?case
  proof (cases "is_author_line l")
    case True
    with "3.prems" have a: "drop 7 l \<noteq> []" and w: "well_formed_from Content ls" by simp_all
    from True have nc: "\<not> is_content_line l"
      using content_not_author by blast
    have "blame_line l (cc, cur) = (dict_modify (drop 7 l) (\<lambda>n. n + 1) 0 cc, cur)"
      using True a live by (simp add: blame_line_def)
    then have "sum_values (fst (blame_lines (l # ls) (cc, cur))) =
        sum_values (fst (blame_lines ls (dict_modify (drop 7 l) (\<lambda>n. n + 1) 0 cc, cur)))"
      by (simp add: blame_lines_def)
    also have "\<dots> = sum_values (dict_modify (drop 7 l) (\<lambda>n. n + 1) 0 cc)
        + int (length (filter is_content_line ls)) - (if Content = Content then 1 else 0)"
      using True w live by (intro "3.IH"(1)) simp_all
    finally show ?thesis using nc by (simp add: sum_values_count)
  next
    case False
    with "3.prems" have o: "\<not> is_commit_line l" "\<not> is_content_line l"
      and w: "well_formed_from Author ls" by simp_all
    have "sum_values (fst (blame_lines (l # ls) (cc, cur))) =
        sum_values (fst (blame_lines ls (cc, cur)))"
      using False o by (simp add: blame_lines_def blame_line_other)
    also have "\<dots> = sum_values cc + int (length (filter is_content_line ls)) - (if Author = Content then 1 else 0)"
      using False w live by (intro "3.IH"(2)) simp_all
    finally show ?thesis using o by simp
  qed
next
  case (4 l ls)
  from "4.prems" have live: "cur \<noteq> None" "cur \<noteq> Some []" by simp_all
  show ?case
  proof (cases "is_content_line l")
    case True
    with "4.prems" have w: "well_formed_from Header ls" by simp
    from True have o: "\<not> is_author_line l" "\<not> is_commit_line l"
      using content_not_author content_not_commit by blast+
    have "sum_values (fst (blame_lines (l # ls) (cc, cur))) =
        sum_values (fst (blame_lines ls (cc, cur)))"
      using o by (simp add: blame_lines_def blame_line_other)
    also have "\<dots> = sum_values cc + int (length (filter is_content_line ls)) - (if Header = Content then 1 else 0)"
      using True w by (intro "4.IH"(1)) simp_all
    finally show ?thesis using True by simp
  next
    case False
    with "4.prems" have o: "\<not> is_author_line l" "\<not> is_commit_line l"
      and w: "well_formed_from Content ls" by simp_all
    have "sum_values (fst (blame_lines (l # ls) (cc, cur))) =
        sum_values (fst (blame_lines ls (cc, cur)))"
      using o by (simp add: blame_lines_def blame_line_other)
    also have "\<dots> = sum_values cc + int (length (filter is_content_line ls)) - (if Content = Content then 1 else 0)"
      using False w live by (intro "4.IH"(2)) simp_all
    finally show ?thesis using False by simp
  qed
qed

text \<open>
  Claim C7, as amended.  A line that is neither an author line nor a commit line leaves
  the parser state unchanged.  One line raises the sum of the counters by at most 1: by
  exactly 1 when it is an author line with a non-empty name and a commit line has been
  seen before, and not at all otherwise; and it changes no counter but the one of the
  name it carries.  Hence the counters grow by at most the number of author lines read.
\<close>

theorem blame_line_effect:
  "sum_values (fst (blame_line line st)) =
     sum_values (fst st) +
       (if is_author_line line \<and> snd st \<noteq> None \<and> snd st \<noteq> Some [] \<and> drop 7 line \<noteq> []
        then 1 else 0)
   \<and> (\<not> is_author_line line \<and> \<not> is_commit_line line \<longrightarrow> blame_line line st = st)
   \<and> (\<forall>a. a \<noteq> drop 7 line \<longrightarrow> map_of (fst (blame_line line st)) a = map_of (fst st) a)
   \<and> sum_values (fst (blame_lines ls st))
       \<le> sum_values (fst st) + int (length (filter is_author_line ls))"
  using blame_line_sum blame_line_other blame_line_key blame_lines_le by blast

theorem blame_line_effect_witness:
  "blame_line ''summary fix'' ([(''Alice'', 1)], Some ''c0ffee'') = ([(''Alice'', 1)], Some ''c0ffee'')
   \<and> sum_values (fst (blame_line ''author Bob'' ([(''Alice'', 1)], Some ''c0ffee''))) = 2
   \<and> map_of (fst (blame_line ''author Bob'' ([(''Alice'', 1)], Some ''c0ffee''))) ''Alice'' = Some 1
   \<and> sum_values (fst (blame_lines [''author Bob'', ''author Bob'', ''x''] ([], None))) \<le> 2"
proof -
  have a: "\<not> is_author_line ''summary fix'' \<and> \<not> is_commit_line ''summary fix''"
    by (simp add: is_author_line_def is_commit_line_def)
  have b: "is_author_line ''author Bob''"
    by (simp add: is_author_line_def)
  show ?thesis
    using blame_line_effect [of "''summary fix''" "([(''Alice'', 1)], Some ''c0ffee'')" "[]"]
      blame_line_effect [of "''author Bob''" "([(''Alice'', 1)], Some ''c0ffee'')"
        "[''author Bob'', ''author Bob'', ''x'']"]
      blame_line_effect [of "''x''" "([], None)" "[''author Bob'', ''author Bob'', ''x'']"]
      a b
    by (simp add: sum_values_def is_author_line_def)
qed

text \<open>
  Claim C7 as stated fails: a metadata block that carries two author lines before its
  single content line is counted twice, once for each name.
\<close>

theorem two_author_lines_counterexample:
  "content_lines (text_of [''0123456789abcdef0123456789abcdef01234567 1 1 1'',
       ''author Alice'', ''author Bob'', CHR 0x09 # ''x = 1'']) = 1
   \<and> parse_blame (text_of [''0123456789abcdef0123456789abcdef01234567 1 1 1'',
       ''author Alice'', ''author Bob'', CHR 0x09 # ''x = 1'']) = [(''Alice'', 1), (''Bob'', 1)]
   \<and> \<not> sum_values (parse_blame (text_of [''0123456789abcdef0123456789abcdef01234567 1 1 1'',
       ''author Alice'', ''author Bob'', CHR 0x09 # ''x = 1''])) \<le> 1"
  by code_simp

text \<open>
  Claim C8.  When the subprocess succeeds with well-formed porcelain output, the values
  of the returned dictionary add up to the number of content lines of that output; and
  the one partial operation of the loop, \<open>line.split()[0]\<close> on a commit line, is
  defined on every commit line, so the parser does not raise.
\<close>

theorem parser_conservation:
  assumes "run_blame file_path = Some stdout" and "well_formed_porcelain stdout"
  shows "sum_values (get_git_blame_info run_blame file_path) = int (content_lines stdout)
         \<and> (\<forall>l \<in> set (split_on (CHR 0x0A) stdout). is_commit_line l \<longrightarrow> first_word l \<noteq> [])"
proof -
  from assms(2) have "well_formed_from Header (split_on (CHR 0x0A) stdout)"
    by (simp add: well_formed_porcelain_def)
  from well_formed_sum [OF this, of None "[]"]
  have "sum_values (fst (blame_lines (split_on (CHR 0x0A) stdout) ([], None))) =
        int (length (filter is_content_line (split_on (CHR 0x0A) stdout)))"
    by (simp add: sum_values_def)
  with assms(1) show ?thesis
    by (simp add: get_git_blame_info_def parse_blame_def content_lines_def sum_values_def
        first_word_commit)
qed

theorem parser_conservation_witness:
  "well_formed_porcelain (text_of [''0123456789abcdef0123456789abcdef01234567 1 1 2'',
       ''author Alice'', ''author-mail <alice@example.org>'', ''summary first'',
       ''filename a.py'', CHR 0x09 # ''x = 1'',
       ''89abcdef0123456789abcdef0123456789abcdef 2 2'',
       ''author Bob'', ''filename a.py'', CHR 0x09 # ''author Eve''])
   \<and> sum_values (get_git_blame_info (\<lambda>p. Some (text_of [''0123456789abcdef0123456789abcdef01234567 1 1 2'',
       ''author Alice'', ''author-mail <alice@example.org>'', ''summary first'',
       ''filename a.py'', CHR 0x09 # ''x = 1'',
       ''89abcdef0123456789abcdef0123456789abcdef 2 2'',
       ''author Bob'', ''filename a.py'', CHR 0x09 # ''author Eve''])) ''a.py'') = 2"
proof -
  let ?out = "text_of [''0123456789abcdef0123456789abcdef01234567 1 1 2'',
       ''author Alice'', ''author-mail <alice@example.org>'', ''summary first'',
       ''filename a.py'', CHR 0x09 # ''x = 1'',
       ''89abcdef0123456789abcdef0123456789abcdef 2 2'',
       ''author Bob'', ''filename a.py'', CHR 0x09 # ''author Eve'']"
  have wf: "well_formed_porcelain ?out" by code_simp
  have n: "content_lines ?out = 2" by code_simp
  from parser_conservation [of "\<lambda>p. Some ?out" "''a.py''" ?out, OF refl wf] n wf
  show ?thesis by simp
qed

section \<open>Sorting\<close>

lemma mset_sorted_reverse: "mset (sorted_reverse key xs) = mset xs"
  by (simp add: sorted_reverse_def)


lemma sorted_sorted_reverse: "sorted_wrt (\<lambda>a b. key b \<le> key a) (sorted_reverse key xs)"
proof -
  have "sorted (map (\<lambda>x. - key x) (sort_key (\<lambda>x. - key x) xs))"
    by (rule sorted_sort_key)
  then show ?thesis
    by (simp add: sorted_reverse_def sorted_map)
qed

lemma stable_sorted_reverse:
  "filter (\<lambda>x. key x = n) (sorted_reverse key xs) = filter (\<lambda>x. key x = n) xs"
  using sort_key_stable [of "\<lambda>x. - key x" "- n" xs]
  by (simp add: sorted_reverse_def)

lemma keys_fold_dict_modify:
  "map fst (fold (\<lambda>x. dict_modify (k x) (f x) d) items kvs) =
     map fst kvs @ filter (\<lambda>a. a \<notin> fst ` set kvs) (first_seen (map k items))"
proof (induction items arbitrary: kvs)
  case Nil
  show ?case by simp
next
  case (Cons x items)
  have *: "filter (\<lambda>a. a \<notin> fst ` set kvs \<and> a \<noteq> k x) ys = filter (\<lambda>a. a \<notin> fst ` set kvs) ys"
    if "k x \<in> fst ` set kvs" for ys
    using that by (intro filter_cong) auto
  have set_keys: "fst ` set (dict_modify (k x) (f x) d kvs) = insert (k x) (fst ` set kvs)"
    using arg_cong [OF keys_dict_modify [of "k x" "f x" d kvs], of set] by (auto split: if_splits)
  show ?case
    by (simp add: Cons.IH keys_dict_modify set_keys * conj_commute)
qed

section \<open>The aggregation loop\<close>

lemma fold_add_author:
  "fold (add_author ext) items s =
     s\<lparr>author_stats := fold (\<lambda>x. dict_modify (fst x) (\<lambda>n. n + snd x) 0) items (author_stats s),
       author_ext_stats :=
         fold (\<lambda>x. dict_modify (fst x) (dict_modify ext (\<lambda>n. n + snd x) 0) []) items
           (author_ext_stats s)\<rparr>"
  by (induction items arbitrary: s) (simp_all add: add_author_def split: prod.splits)

lemma total_lines_fold_add_file:
  "total_lines (fold (add_file run_blame) fs s) =
     total_lines s + sum_list (map (\<lambda>f. sum_values (get_git_blame_info run_blame f)) fs)"
  by (induction fs arbitrary: s) (simp_all add: add_file_def Let_def fold_add_author)

lemma extension_stats_fold_add_file:
  "extension_stats (fold (add_file run_blame) fs s) =
     fold (\<lambda>f. dict_modify (splitext_ext f)
             (\<lambda>(files, lines). (files + 1, lines + sum_values (get_git_blame_info run_blame f)))
             (0, 0))
       fs (extension_stats s)"
  by (induction fs arbitrary: s) (simp_all add: add_file_def Let_def fold_add_author)

lemma author_stats_fold_add_file:
  "author_stats (fold (add_file run_blame) fs s) =
     fold (\<lambda>x. dict_modify (fst (snd x)) (\<lambda>n. n + snd (snd x)) 0) (entries run_blame fs)
       (author_stats s)"
  by (induction fs arbitrary: s)
     (simp_all add: add_file_def Let_def fold_add_author entries_def fold_map comp_def)

lemma author_ext_stats_fold_add_file:
  "author_ext_stats (fold (add_file run_blame) fs s) =
     fold (\<lambda>x. dict_modify (fst (snd x)) (dict_modify (fst x) (\<lambda>n. n + snd (snd x)) 0) [])
       (entries run_blame fs) (author_ext_stats s)"
  by (induction fs arbitrary: s)
     (simp_all add: add_file_def Let_def fold_add_author entries_def fold_map comp_def)

lemma blame_data_fold_add_file:
  "blame_data (fold (add_file run_blame) fs s) =
     fold (\<lambda>f. dict_set f (get_git_blame_info run_blame f)) fs (blame_data s)"
  by (induction fs arbitrary: s) (simp_all add: add_file_def Let_def fold_add_author)

lemma count_of_dict_modify:
  "count_of (dict_modify k (\<lambda>n. n + c) 0 d) k' = count_of d k' + (if k' = k then c else 0)"
  by (simp add: count_of_def map_of_dict_modify split: option.splits)

lemma sum_values_fold_counts:
  "sum_values (fold (\<lambda>x. dict_modify (key x) (\<lambda>n. n + val x) 0) items kvs) =
     sum_values kvs + sum_list (map val items)"
  by (induction items arbitrary: kvs) (simp_all add: sum_values_count)

lemma count_of_fold_counts:
  "count_of (fold (\<lambda>x. dict_modify (key x) (\<lambda>n. n + val x) 0) items kvs) k =
     count_of kvs k + sum_list (map val (filter (\<lambda>x. key x = k) items))"
  by (induction items arbitrary: kvs) (simp_all add: count_of_dict_modify)

lemma dom_dict_modify: "fst ` set (dict_modify k f d kvs) = insert k (fst ` set kvs)"
  using arg_cong [OF keys_dict_modify [of k f d kvs], of set] by (auto split: if_splits)

lemma dom_fold_dict_modify:
  "fst ` set (fold (\<lambda>x. dict_modify (key x) (f x) d) items kvs) = fst ` set kvs \<union> key ` set items"
  by (induction items arbitrary: kvs) (simp_all add: dom_dict_modify)

lemma sum_lines_fold_ext:
  fixes v :: "'a \<Rightarrow> int"
  shows "sum_list (map (\<lambda>x. snd (snd x))
       (fold (\<lambda>f. dict_modify (e f) (\<lambda>(files, lines). (files + 1, lines + v f)) (0, 0)) fs kvs)) =
     sum_list (map (\<lambda>x. snd (snd x)) kvs) + sum_list (map v fs)"
proof (induction fs arbitrary: kvs)
  case Nil
  show ?case by simp
next
  case (Cons f fs)
  have "sum_list (map (\<lambda>x. snd (snd x))
          (dict_modify (e f) (\<lambda>(files, lines). (files + 1, lines + v f)) (0, 0) kvs)) =
        sum_list (map (\<lambda>x. snd (snd x)) kvs) + v f"
    using sum_dict_modify [of snd "e f" "\<lambda>(files, lines). (files + 1, lines + v f)" "(0, 0)" kvs]
    by (simp split: option.splits prod.splits)
  then show ?case by (simp add: Cons.IH)
qed

lemma not_Some_pair: "(\<forall>a b. x \<noteq> Some (a, b)) \<longleftrightarrow> x = None"
  by (cases x) auto

lemma map_of_fold_ext:
  fixes v :: "'a \<Rightarrow> int"
  shows "map_of (fold (\<lambda>f. dict_modify (e f) (\<lambda>(files, lines). (files + 1, lines + v f)) (0, 0)) fs kvs) k =
     (if k \<in> e ` set fs \<or> map_of kvs k \<noteq> None then
        Some ((\<lambda>(files, lines).
                 (files + int (length (filter (\<lambda>f. e f = k) fs)),
                  lines + sum_list (map v (filter (\<lambda>f. e f = k) fs))))
               (case map_of kvs k of None \<Rightarrow> (0, 0) | Some x \<Rightarrow> x))
      else None)"
proof (induction fs arbitrary: kvs)
  case Nil
  show ?case by (auto split: prod.splits simp: not_Some_pair)
next
  case (Cons f fs)
  show ?case
    by (auto simp: Cons.IH map_of_dict_modify not_Some_pair split: option.splits prod.splits)
qed

lemma get_fold_nested:
  "(case map_of (fold (\<lambda>x. dict_modify (a x) (dict_modify (e x) (\<lambda>n. n + c x) 0) []) items aes) a0 of
      None \<Rightarrow> [] | Some d \<Rightarrow> d) =
   fold (\<lambda>x. dict_modify (e x) (\<lambda>n. n + c x) 0) (filter (\<lambda>x. a x = a0) items)
     (case map_of aes a0 of None \<Rightarrow> [] | Some d \<Rightarrow> d)"
  by (induction items arbitrary: aes) (simp_all add: map_of_dict_modify split: option.splits)

lemma sum_column_fold_nested:
  "sum_list (map (\<lambda>x. count_of (snd x) e0)
       (fold (\<lambda>x. dict_modify (a x) (dict_modify (e x) (\<lambda>n. n + c x) 0) []) items aes)) =
     sum_list (map (\<lambda>x. count_of (snd x) e0) aes)
       + sum_list (map c (filter (\<lambda>x. e x = e0) items))"
proof (induction items arbitrary: aes)
  case Nil
  show ?case by simp
next
  case (Cons x items)
  have "sum_list (map (\<lambda>y. count_of (snd y) e0)
          (dict_modify (a x) (dict_modify (e x) (\<lambda>n. n + c x) 0) [] aes)) =
        sum_list (map (\<lambda>y. count_of (snd y) e0) aes) + (if e0 = e x then c x else 0)"
    using sum_dict_modify [of "\<lambda>d. count_of d e0" "a x" "dict_modify (e x) (\<lambda>n. n + c x) 0" "[]" aes]
    by (simp add: count_of_dict_modify split: option.splits) (simp add: count_of_def)
  then show ?case by (auto simp: Cons.IH)
qed

lemma entries_by_ext:
  "sum_list (map (\<lambda>x. snd (snd x)) (filter (\<lambda>x. fst x = e0) (entries run_blame fs))) =
     sum_list (map (\<lambda>f. sum_values (get_git_blame_info run_blame f))
       (filter (\<lambda>f. splitext_ext f = e0) fs))"
  by (induction fs) (simp_all add: entries_def sum_values_def comp_def)

lemma entries_total:
  "sum_list (map (\<lambda>x. snd (snd x)) (entries run_blame fs)) =
     sum_list (map (\<lambda>f. sum_values (get_git_blame_info run_blame f)) fs)"
  by (induction fs) (simp_all add: entries_def sum_values_def comp_def)

section \<open>The directory tree\<close>

lemma node_at_Nil [simp]: "node_at [] qs = None"
  by (induction "[] :: (string \<times> dir_node) list" qs rule: node_at.induct) simp_all

lemma node_at_Cons:
  "node_at subs (d # ds) =
     (if ds = [] then map_of subs d
      else case map_of subs d of None \<Rightarrow> None | Some n \<Rightarrow> node_at (subdirs n) ds)"
  by (cases ds) (simp_all split: option.splits)

lemma children_lines_add_path:
  "children_lines (add_path ds L subs) = children_lines subs + (if ds = [] then 0 else L)"
proof (cases ds)
  case Nil
  then show ?thesis by simp
next
  case (Cons p rest)
  show ?thesis
    using sum_dict_modify [of lines p
        "\<lambda>n. Node (files n + 1) (lines n + L) (add_path rest L (subdirs n))" "Node 0 0 []" subs]
    by (simp add: Cons children_lines_def split: option.splits)
qed

lemma node_at_add_path:
  "node_at (add_path ds L subs) qs =
     (if qs \<noteq> [] \<and> prefix qs ds then
        (let n = (case node_at subs qs of None \<Rightarrow> Node 0 0 [] | Some n \<Rightarrow> n) in
         Some (Node (files n + 1) (lines n + L) (add_path (drop (length qs) ds) L (subdirs n))))
      else node_at subs qs)"
proof (induction ds arbitrary: subs qs)
  case Nil
  show ?case by simp
next
  case (Cons p rest)
  show ?case
  proof (cases qs)
    case Nil
    then show ?thesis by simp
  next
    case (Cons q qs')
    show ?thesis
    proof (cases "qs' = []")
      case True
      with Cons show ?thesis
        by (simp add: map_of_dict_modify Let_def)
    next
      case False
      with Cons Cons.IH show ?thesis
        by (simp add: node_at_Cons map_of_dict_modify Let_def split: option.splits)
    qed
  qed
qed

lemma dir_at_tree_add:
  "dir_at (tree_add ds L tree) qs =
     (if qs \<noteq> [] \<and> prefix qs ds then
        (let n = (case dir_at tree qs of None \<Rightarrow> Node 0 0 [] | Some n \<Rightarrow> n) in
         Some (Node (files n + 1) (lines n + L) (add_path (drop (length qs) ds) L (subdirs n))))
      else dir_at tree qs)"
proof (cases "ds = []")
  case True
  then show ?thesis by (simp add: tree_add_def)
next
  case False
  then show ?thesis
    by (cases tree) (simp_all add: tree_add_def dir_at_def node_at_add_path)
qed

lemma files_in_tree_add:
  "files_in (tree_add ds L tree) qs =
     files_in tree qs + (if qs \<noteq> [] \<and> prefix qs ds then 1 else 0)"
  by (simp add: files_in_def dir_at_tree_add Let_def split: option.splits)

lemma lines_in_tree_add:
  "lines_in (tree_add ds L tree) qs =
     lines_in tree qs + (if qs \<noteq> [] \<and> prefix qs ds then L else 0)"
  by (simp add: lines_in_def dir_at_tree_add Let_def split: option.splits)

lemma drop_length_Nil_prefix: "prefix qs ds \<Longrightarrow> drop (length qs) ds = [] \<longleftrightarrow> qs = ds"
  by (auto simp: prefix_def)

lemma children_lines_Nil [simp]: "children_lines [] = 0"
  by (simp add: children_lines_def)

lemma kids_lines_in_tree_add:
  "kids_lines_in (tree_add ds L tree) qs =
     kids_lines_in tree qs + (if qs \<noteq> [] \<and> strict_prefix qs ds then L else 0)"
proof (cases "qs \<noteq> [] \<and> prefix qs ds")
  case False
  then have "dir_at (tree_add ds L tree) qs = dir_at tree qs"
    by (auto simp: dir_at_tree_add)
  with False show ?thesis
    by (auto simp: kids_lines_in_def strict_prefix_def)
next
  case True
  define n where "n = (case dir_at tree qs of None \<Rightarrow> Node 0 0 [] | Some n \<Rightarrow> n)"
  have old: "kids_lines_in tree qs = children_lines (subdirs n)"
    by (simp add: kids_lines_in_def n_def split: option.splits)
  have "dir_at (tree_add ds L tree) qs =
        Some (Node (files n + 1) (lines n + L) (add_path (drop (length qs) ds) L (subdirs n)))"
    using True by (simp add: dir_at_tree_add n_def Let_def)
  then have "kids_lines_in (tree_add ds L tree) qs =
        children_lines (subdirs n) + (if drop (length qs) ds = [] then 0 else L)"
    by (simp add: kids_lines_in_def children_lines_add_path)
  moreover have "drop (length qs) ds = [] \<longleftrightarrow> \<not> strict_prefix qs ds"
    using True drop_length_Nil_prefix [of qs ds] by (auto simp: strict_prefix_def)
  ultimately show ?thesis
    using True old by simp
qed

lemma dir_at_tree_add_None:
  "dir_at (tree_add ds L tree) qs = None \<longleftrightarrow>
     dir_at tree qs = None \<and> \<not> (qs \<noteq> [] \<and> prefix qs ds)"
  by (simp add: dir_at_tree_add Let_def)

lemma root_lines_tree_add:
  "children_lines (root_subdirs (tree_add ds L tree)) =
     children_lines (root_subdirs tree) + (if ds = [] then 0 else L)"
  by (simp add: tree_add_def root_subdirs_def children_lines_add_path)

lemma files_in_fold:
  "files_in (fold (\<lambda>f. tree_add (d f) (v f)) fs tree) qs =
     files_in tree qs + int (length (filter (\<lambda>f. qs \<noteq> [] \<and> prefix qs (d f)) fs))"
  by (induction fs arbitrary: tree) (simp_all add: files_in_tree_add)

lemma lines_in_fold:
  "lines_in (fold (\<lambda>f. tree_add (d f) (v f)) fs tree) qs =
     lines_in tree qs + sum_list (map v (filter (\<lambda>f. qs \<noteq> [] \<and> prefix qs (d f)) fs))"
  by (induction fs arbitrary: tree) (simp_all add: lines_in_tree_add)

lemma kids_lines_in_fold:
  "kids_lines_in (fold (\<lambda>f. tree_add (d f) (v f)) fs tree) qs =
     kids_lines_in tree qs
       + sum_list (map v (filter (\<lambda>f. qs \<noteq> [] \<and> strict_prefix qs (d f)) fs))"
  by (induction fs arbitrary: tree) (simp_all add: kids_lines_in_tree_add)

lemma dir_at_fold_None:
  "dir_at (fold (\<lambda>f. tree_add (d f) (v f)) fs tree) qs = None \<longleftrightarrow>
     dir_at tree qs = None \<and> (\<forall>f \<in> set fs. \<not> (qs \<noteq> [] \<and> prefix qs (d f)))"
  by (induction fs arbitrary: tree) (auto simp: dir_at_tree_add_None)

lemma root_lines_fold:
  "children_lines (root_subdirs (fold (\<lambda>f. tree_add (d f) (v f)) fs tree)) =
     children_lines (root_subdirs tree) + sum_list (map v (filter (\<lambda>f. d f \<noteq> []) fs))"
  by (induction fs arbitrary: tree) (simp_all add: root_lines_tree_add)

lemma sum_filter_split:
  fixes v :: "'a \<Rightarrow> int"
  assumes "\<And>x. \<not> (P x \<and> Q x)"
  shows "sum_list (map v (filter (\<lambda>x. P x \<or> Q x) xs)) =
         sum_list (map v (filter P xs)) + sum_list (map v (filter Q xs))"
  using assms by (induction xs) auto

lemma rollup_fold:
  assumes "qs \<noteq> []"
  shows "lines_in (fold (\<lambda>f. tree_add (d f) (v f)) fs None) qs =
         kids_lines_in (fold (\<lambda>f. tree_add (d f) (v f)) fs None) qs
           + sum_list (map v (filter (\<lambda>f. d f = qs) fs))"
proof -
  have eq: "(\<lambda>f. qs \<noteq> [] \<and> prefix qs (d f)) = (\<lambda>f. (qs \<noteq> [] \<and> strict_prefix qs (d f)) \<or> d f = qs)"
    using assms by (auto simp: strict_prefix_def)
  have "sum_list (map v (filter (\<lambda>f. (qs \<noteq> [] \<and> strict_prefix qs (d f)) \<or> d f = qs) fs)) =
        sum_list (map v (filter (\<lambda>f. qs \<noteq> [] \<and> strict_prefix qs (d f)) fs))
          + sum_list (map v (filter (\<lambda>f. d f = qs) fs))"
    by (rule sum_filter_split) (auto simp: strict_prefix_def)
  then have "sum_list (map v (filter (\<lambda>f. qs \<noteq> [] \<and> prefix qs (d f)) fs)) =
        sum_list (map v (filter (\<lambda>f. qs \<noteq> [] \<and> strict_prefix qs (d f)) fs))
          + sum_list (map v (filter (\<lambda>f. d f = qs) fs))"
    by (simp only: eq)
  moreover have "lines_in None qs = 0" and "kids_lines_in None qs = 0"
    by (simp_all add: lines_in_def kids_lines_in_def dir_at_def)
  ultimately show ?thesis
    by (simp only: lines_in_fold kids_lines_in_fold)
qed

lemma map_of_fold_dict_set:
  "map_of (fold (\<lambda>f. dict_set f (g f)) fs kvs) k = (if k \<in> set fs then Some (g k) else map_of kvs k)"
  by (induction fs arbitrary: kvs) (simp_all add: dict_set_def map_of_dict_modify)

lemma build_from_fold:
  "\<forall>f \<in> set fs. map_of bd f = Some (g f) \<Longrightarrow>
   build_from tree fs bd = Inr (fold (\<lambda>f. tree_add (butlast (parts f)) (sum_values (g f))) fs tree)"
  by (induction fs arbitrary: tree) simp_all

text \<open>The tree \<open>main\<close> builds after the aggregation loop.\<close>

lemma build_directory_tree_collect:
  "build_directory_tree fs (blame_data (collect run_blame fs)) =
     Inr (fold (\<lambda>f. tree_add (butlast (parts f)) (sum_values (get_git_blame_info run_blame f)))
            fs None)"
  unfolding build_directory_tree_def collect_def
  by (rule build_from_fold) (simp add: blame_data_fold_add_file map_of_fold_dict_set)

section \<open>Consistency of the tables\<close>

lemma sum_values_Nil [simp]: "sum_values [] = 0"
  by (simp add: sum_values_def)

lemma count_of_Nil [simp]: "count_of [] k = 0"
  by (simp add: count_of_def)

lemma sum_filter_complement:
  fixes v :: "'a \<Rightarrow> int"
  shows "sum_list (map v (filter P xs)) + sum_list (map v (filter (\<lambda>x. \<not> P x) xs)) = sum_list (map v xs)"
  by (induction xs) auto

text \<open>
  Claim C1, as amended.  After the aggregation loop over any list of tracked files: the
  line counts of the extension table and the counts of the author table both add up
  to \<open>total_lines\<close>.  The root of the tree stores no line count, and a file that lies
  directly in the root leaves no trace in the tree: the line counts of the root's
  children add up to \<open>total_lines\<close> less the lines of those files, and so to
  \<open>total_lines\<close> when every tracked file has a directory part.  The author table and
  the author-by-extension table have the same authors; for every author the counts of
  that author's extensions add up to the author's total, and for every extension the
  counts of all authors in that extension add up to the extension's line count.
\<close>

theorem cross_table_consistency:
  "sum_list (map (\<lambda>x. snd (snd x)) (extension_stats (collect run_blame tracked_files)))
     = total_lines (collect run_blame tracked_files)
   \<and> sum_values (author_stats (collect run_blame tracked_files))
     = total_lines (collect run_blame tracked_files)
   \<and> (\<exists>tree. build_directory_tree tracked_files (blame_data (collect run_blame tracked_files)) = Inr tree
        \<and> children_lines (root_subdirs tree)
          = total_lines (collect run_blame tracked_files)
            - sum_list (map (\<lambda>f. sum_values (get_git_blame_info run_blame f))
                (filter (\<lambda>f. butlast (parts f) = []) tracked_files))
        \<and> ((\<forall>f \<in> set tracked_files. butlast (parts f) \<noteq> []) \<longrightarrow>
             children_lines (root_subdirs tree) = total_lines (collect run_blame tracked_files)))
   \<and> fst ` set (author_ext_stats (collect run_blame tracked_files))
     = fst ` set (author_stats (collect run_blame tracked_files))
   \<and> sum_values (ext_counts_of (collect run_blame tracked_files) author)
     = count_of (author_stats (collect run_blame tracked_files)) author
   \<and> sum_list (map (\<lambda>x. count_of (snd x) ext) (author_ext_stats (collect run_blame tracked_files)))
     = ext_lines_of (collect run_blame tracked_files) ext"
proof -
  let ?s = "collect run_blame tracked_files"
  let ?v = "\<lambda>f. sum_values (get_git_blame_info run_blame f)"
  let ?es = "entries run_blame tracked_files"
  have total: "total_lines ?s = sum_list (map ?v tracked_files)"
    by (simp add: collect_def total_lines_fold_add_file initial_stats_def)
  have a: "sum_list (map (\<lambda>x. snd (snd x)) (extension_stats ?s)) = total_lines ?s"
    by (simp add: total)
       (simp add: collect_def extension_stats_fold_add_file sum_lines_fold_ext initial_stats_def)
  have b: "sum_values (author_stats ?s) = total_lines ?s"
    by (simp add: total)
       (simp add: collect_def author_stats_fold_add_file sum_values_fold_counts entries_total
          initial_stats_def)
  let ?tree = "fold (\<lambda>f. tree_add (butlast (parts f)) (?v f)) tracked_files None"
  have "root_subdirs None = []"
    by (simp add: root_subdirs_def)
  then have "children_lines (root_subdirs ?tree) =
        sum_list (map ?v (filter (\<lambda>f. butlast (parts f) \<noteq> []) tracked_files))"
    by (simp add: root_lines_fold)
  then have c1: "children_lines (root_subdirs ?tree)
      = total_lines ?s - sum_list (map ?v (filter (\<lambda>f. butlast (parts f) = []) tracked_files))"
    using sum_filter_complement [of ?v "\<lambda>f. butlast (parts f) = []" tracked_files]
    by (simp add: total)
  have "filter (\<lambda>f. butlast (parts f) = []) tracked_files = []"
    if "\<forall>f \<in> set tracked_files. butlast (parts f) \<noteq> []"
    using that by (simp add: filter_empty_conv)
  with c1 have c2: "(\<forall>f \<in> set tracked_files. butlast (parts f) \<noteq> []) \<longrightarrow>
      children_lines (root_subdirs ?tree) = total_lines ?s"
    by simp
  from c1 c2 have c: "\<exists>tree. build_directory_tree tracked_files (blame_data ?s) = Inr tree
        \<and> children_lines (root_subdirs tree)
          = total_lines ?s - sum_list (map ?v (filter (\<lambda>f. butlast (parts f) = []) tracked_files))
        \<and> ((\<forall>f \<in> set tracked_files. butlast (parts f) \<noteq> []) \<longrightarrow>
             children_lines (root_subdirs tree) = total_lines ?s)"
    using build_directory_tree_collect [of tracked_files run_blame] by blast
  have d: "fst ` set (author_ext_stats ?s) = fst ` set (author_stats ?s)"
    by (simp add: collect_def author_stats_fold_add_file author_ext_stats_fold_add_file
        dom_fold_dict_modify initial_stats_def)
  have "ext_counts_of ?s author =
        fold (\<lambda>x. dict_modify (fst x) (\<lambda>n. n + snd (snd x)) 0)
          (filter (\<lambda>x. fst (snd x) = author) ?es) []"
    by (simp add: ext_counts_of_def collect_def author_ext_stats_fold_add_file
        get_fold_nested initial_stats_def)
  then have "sum_values (ext_counts_of ?s author) =
        sum_list (map (\<lambda>x. snd (snd x)) (filter (\<lambda>x. fst (snd x) = author) ?es))"
    by (simp add: sum_values_fold_counts)
  moreover have "count_of (author_stats ?s) author =
        sum_list (map (\<lambda>x. snd (snd x)) (filter (\<lambda>x. fst (snd x) = author) ?es))"
    by (simp add: collect_def author_stats_fold_add_file count_of_fold_counts initial_stats_def)
  ultimately have e: "sum_values (ext_counts_of ?s author) = count_of (author_stats ?s) author"
    by simp
  have "sum_list (map (\<lambda>x. count_of (snd x) ext) (author_ext_stats ?s)) =
        sum_list (map (\<lambda>x. snd (snd x)) (filter (\<lambda>x. fst x = ext) ?es))"
    by (simp add: collect_def author_ext_stats_fold_add_file sum_column_fold_nested
        initial_stats_def)
  moreover have "filter (\<lambda>f. splitext_ext f = ext) tracked_files = []"
    if "ext \<notin> splitext_ext ` set tracked_files"
    using that by (auto simp: filter_empty_conv)
  then have "ext_lines_of ?s ext =
        sum_list (map ?v (filter (\<lambda>f. splitext_ext f = ext) tracked_files))"
    by (simp add: ext_lines_of_def collect_def extension_stats_fold_add_file map_of_fold_ext
        initial_stats_def)
  ultimately have f: "sum_list (map (\<lambda>x. count_of (snd x) ext) (author_ext_stats ?s))
      = ext_lines_of ?s ext"
    by (simp add: entries_by_ext)
  from a b c d e f show ?thesis by blast
qed

lemma dir_at_Nil [simp]: "dir_at tree [] = None"
  by (simp add: dir_at_def split: option.splits)

text \<open>
  Claim C2.  Adding a file with \<open>file_lines\<close> lines to the tree adds 1 to the file
  count and \<open>file_lines\<close> to the line count of the directory at every non-empty prefix
  of the file's directory path (its parts without the file name), creating the node
  where it is missing, and leaves every other directory as it was.  A file with no
  directory part leaves the tree unchanged: it counts only in \<open>total_lines\<close>.  In the
  tree that \<open>main\<close> builds, the line count of every node is the sum of the line counts
  of its children plus the lines of the files that lie directly in that directory.
\<close>

theorem tree_rollup:
  "(\<forall>qs. files_in (tree_add (butlast (parts file_path)) file_lines tree) qs =
           files_in tree qs + (if qs \<noteq> [] \<and> prefix qs (butlast (parts file_path)) then 1 else 0)
        \<and> lines_in (tree_add (butlast (parts file_path)) file_lines tree) qs =
           lines_in tree qs
             + (if qs \<noteq> [] \<and> prefix qs (butlast (parts file_path)) then file_lines else 0)
        \<and> (dir_at (tree_add (butlast (parts file_path)) file_lines tree) qs = None \<longleftrightarrow>
             dir_at tree qs = None \<and> \<not> (qs \<noteq> [] \<and> prefix qs (butlast (parts file_path)))))
   \<and> (butlast (parts file_path) = [] \<longrightarrow>
        tree_add (butlast (parts file_path)) file_lines tree = tree)
   \<and> (\<exists>built. build_directory_tree tracked_files (blame_data (collect run_blame tracked_files))
                 = Inr built
        \<and> (\<forall>qs n. dir_at built qs = Some n \<longrightarrow>
              lines n = children_lines (subdirs n)
                + sum_list (map (\<lambda>f. sum_values (get_git_blame_info run_blame f))
                    (filter (\<lambda>f. butlast (parts f) = qs) tracked_files))))"
proof -
  let ?v = "\<lambda>f. sum_values (get_git_blame_info run_blame f)"
  let ?built = "fold (\<lambda>f. tree_add (butlast (parts f)) (?v f)) tracked_files None"
  have rollup: "lines n = children_lines (subdirs n)
      + sum_list (map ?v (filter (\<lambda>f. butlast (parts f) = qs) tracked_files))"
    if at: "dir_at ?built qs = Some n" for qs n
  proof -
    from at have "qs \<noteq> []" by (cases qs) simp_all
    then have "lines_in ?built qs = kids_lines_in ?built qs
        + sum_list (map ?v (filter (\<lambda>f. butlast (parts f) = qs) tracked_files))"
      by (rule rollup_fold)
    with at show ?thesis by (simp add: lines_in_def kids_lines_in_def)
  qed
  have "build_directory_tree tracked_files (blame_data (collect run_blame tracked_files)) = Inr ?built"
    by (rule build_directory_tree_collect)
  with rollup have built: "\<exists>built. build_directory_tree tracked_files
        (blame_data (collect run_blame tracked_files)) = Inr built
      \<and> (\<forall>qs n. dir_at built qs = Some n \<longrightarrow>
              lines n = children_lines (subdirs n)
                + sum_list (map ?v (filter (\<lambda>f. butlast (parts f) = qs) tracked_files)))"
    by blast
  have step: "\<forall>qs. files_in (tree_add (butlast (parts file_path)) file_lines tree) qs =
           files_in tree qs + (if qs \<noteq> [] \<and> prefix qs (butlast (parts file_path)) then 1 else 0)
        \<and> lines_in (tree_add (butlast (parts file_path)) file_lines tree) qs =
           lines_in tree qs
             + (if qs \<noteq> [] \<and> prefix qs (butlast (parts file_path)) then file_lines else 0)
        \<and> (dir_at (tree_add (butlast (parts file_path)) file_lines tree) qs = None \<longleftrightarrow>
             dir_at tree qs = None \<and> \<not> (qs \<noteq> [] \<and> prefix qs (butlast (parts file_path))))"
    by (simp only: files_in_tree_add lines_in_tree_add dir_at_tree_add_None) simp
  have root: "butlast (parts file_path) = [] \<longrightarrow>
        tree_add (butlast (parts file_path)) file_lines tree = tree"
    by (simp add: tree_add_def)
  from step root built show ?thesis by blast
qed

theorem tree_rollup_witness:
  "files_in (tree_add (butlast (parts ''src/lib/a.py'')) 7 (Some [(''src'', Node 2 5 [])])) [''src''] = 3
   \<and> lines_in (tree_add (butlast (parts ''src/lib/a.py'')) 7 (Some [(''src'', Node 2 5 [])])) [''src''] = 12
   \<and> lines_in (tree_add (butlast (parts ''src/lib/a.py'')) 7 (Some [(''src'', Node 2 5 [])])) [''src'', ''lib''] = 7
   \<and> lines_in (tree_add (butlast (parts ''src/lib/a.py'')) 7 (Some [(''src'', Node 2 5 [])])) [''doc''] = 0
   \<and> tree_add (butlast (parts ''setup.py'')) 7 (Some [(''src'', Node 2 5 [])]) = Some [(''src'', Node 2 5 [])]"
proof -
  have p: "butlast (parts ''src/lib/a.py'') = [''src'', ''lib'']" "butlast (parts ''setup.py'') = []"
    by code_simp+
  have old: "files_in (Some [(''src'', Node 2 5 [])]) [''src''] = 2"
    "lines_in (Some [(''src'', Node 2 5 [])]) [''src''] = 5"
    "lines_in (Some [(''src'', Node 2 5 [])]) [''src'', ''lib''] = 0"
    "lines_in (Some [(''src'', Node 2 5 [])]) [''doc''] = 0"
    by (simp_all add: files_in_def lines_in_def dir_at_def)
  from tree_rollup [of "''src/lib/a.py''" 7 "Some [(''src'', Node 2 5 [])]" "[]" "\<lambda>p. None"]
    tree_rollup [of "''setup.py''" 7 "Some [(''src'', Node 2 5 [])]" "[]" "\<lambda>p. None"]
  show ?thesis
    by (simp add: p old)
qed

section \<open>The example repository\<close>

lemma example_blame_info:
  "get_git_blame_info example_blame ''a.py'' = [(''Alice'', 10)]"
  "get_git_blame_info example_blame ''sub/b.py'' = [(''Bob'', 5)]"
  "get_git_blame_info example_blame ''docs/c.py'' = []"
  by code_simp+

lemma example_paths:
  "splitext_ext ''a.py'' = ''.py''" "splitext_ext ''sub/b.py'' = ''.py''"
  "splitext_ext ''docs/c.py'' = ''.py''"
  "butlast (parts ''a.py'') = []" "butlast (parts ''sub/b.py'') = [''sub'']"
  "butlast (parts ''docs/c.py'') = [''docs'']"
  by code_simp+

lemma example_collect:
  "collect example_blame [''a.py'', ''sub/b.py''] =
     \<lparr>author_ext_stats = [(''Alice'', [(''.py'', 10)]), (''Bob'', [(''.py'', 5)])],
      extension_stats = [(''.py'', 2, 15)],
      author_stats = [(''Alice'', 10), (''Bob'', 5)],
      blame_data = [(''a.py'', [(''Alice'', 10)]), (''sub/b.py'', [(''Bob'', 5)])],
      total_lines = 15\<rparr>"
  by (simp add: collect_def add_file_def add_author_def initial_stats_def example_blame_info
      example_paths dict_set_def sum_values_def Let_def)

lemma example_tree:
  "build_directory_tree [''a.py'', ''sub/b.py'']
     [(''a.py'', [(''Alice'', 10)]), (''sub/b.py'', [(''Bob'', 5)])] = Inr (Some [(''sub'', Node 1 5 [])])"
  by (simp add: build_directory_tree_def example_paths tree_add_def sum_values_def)

text \<open>The report of the scenario, as the specification expects it.\<close>

lemma example_analyze:
  "analyze fmt example_blame [''a.py'', ''sub/b.py''] =
     Inr (Some (Report 15 2 [(''.py'', 2, 15)] [(''Alice'', 10), (''Bob'', 5)]
       [(''Alice'', [(''.py'', 10)]), (''Bob'', [(''.py'', 5)])]
       [DirLine [Corner] ''sub'', StatsLine [Blank] 5 (fmt 5 15) 1]))"
  by (simp add: analyze_def example_collect example_tree print_directory_tree_def
      sorted_reverse_def format_percentage_def above_threshold_def true_div_overflows_def
      true_div_gt_001_def extension_listing_def author_listing_def author_extension_listing_def)

text \<open>The same repository with a third tracked file for which blame fails.\<close>

lemma example_collect_failed:
  "collect example_blame [''a.py'', ''docs/c.py'', ''sub/b.py''] =
     \<lparr>author_ext_stats = [(''Alice'', [(''.py'', 10)]), (''Bob'', [(''.py'', 5)])],
      extension_stats = [(''.py'', 3, 15)],
      author_stats = [(''Alice'', 10), (''Bob'', 5)],
      blame_data = [(''a.py'', [(''Alice'', 10)]), (''docs/c.py'', []), (''sub/b.py'', [(''Bob'', 5)])],
      total_lines = 15\<rparr>"
  by (simp add: collect_def add_file_def add_author_def initial_stats_def example_blame_info
      example_paths dict_set_def sum_values_def Let_def)

lemma example_tree_failed:
  "build_directory_tree [''a.py'', ''docs/c.py'', ''sub/b.py'']
     [(''a.py'', [(''Alice'', 10)]), (''docs/c.py'', []), (''sub/b.py'', [(''Bob'', 5)])]
   = Inr (Some [(''docs'', Node 1 0 []), (''sub'', Node 1 5 [])])"
  by (simp add: build_directory_tree_def example_paths tree_add_def sum_values_def)

lemma example_collect_sub:
  "collect example_blame [''sub/b.py''] =
     \<lparr>author_ext_stats = [(''Bob'', [(''.py'', 5)])],
      extension_stats = [(''.py'', 1, 5)],
      author_stats = [(''Bob'', 5)],
      blame_data = [(''sub/b.py'', [(''Bob'', 5)])],
      total_lines = 5\<rparr>"
  by (simp add: collect_def add_file_def add_author_def initial_stats_def example_blame_info
      example_paths dict_set_def sum_values_def Let_def)

theorem cross_table_consistency_witness:
  "sum_list (map (\<lambda>x. snd (snd x)) (extension_stats (collect example_blame [''a.py'', ''sub/b.py'']))) = 15
   \<and> sum_values (author_stats (collect example_blame [''a.py'', ''sub/b.py''])) = 15
   \<and> (\<exists>tree. build_directory_tree [''a.py'', ''sub/b.py'']
                (blame_data (collect example_blame [''a.py'', ''sub/b.py''])) = Inr tree
        \<and> children_lines (root_subdirs tree) = 5)
   \<and> (\<exists>tree. build_directory_tree [''sub/b.py'']
                (blame_data (collect example_blame [''sub/b.py''])) = Inr tree
        \<and> children_lines (root_subdirs tree) = 5)
   \<and> sum_values (ext_counts_of (collect example_blame [''a.py'', ''sub/b.py'']) ''Alice'') = 10
   \<and> sum_list (map (\<lambda>x. count_of (snd x) ''.py'')
         (author_ext_stats (collect example_blame [''a.py'', ''sub/b.py'']))) = 15"
proof -
  have "total_lines (collect example_blame [''a.py'', ''sub/b.py'']) = 15"
    and "count_of (author_stats (collect example_blame [''a.py'', ''sub/b.py''])) ''Alice'' = 10"
    and "ext_lines_of (collect example_blame [''a.py'', ''sub/b.py'']) ''.py'' = 15"
    and "sum_list (map (\<lambda>f. sum_values (get_git_blame_info example_blame f))
           (filter (\<lambda>f. butlast (parts f) = []) [''a.py'', ''sub/b.py''])) = 10"
    and "total_lines (collect example_blame [''sub/b.py'']) = 5"
    and "\<forall>f \<in> set [''sub/b.py'']. butlast (parts f) \<noteq> []"
    by (simp_all add: example_collect example_collect_sub count_of_def ext_lines_of_def
        example_paths example_blame_info sum_values_def)
  with cross_table_consistency [of example_blame "[''a.py'', ''sub/b.py'']" "''Alice''" "''.py''"]
    cross_table_consistency [of example_blame "[''sub/b.py'']" "''Alice''" "''.py''"]
  show ?thesis by simp blast
qed

text \<open>
  Claim C1 as stated fails in the specification's own scenario: the tree holds the five
  lines of \<open>sub/b.py\<close> and nothing of \<open>a.py\<close>, while \<open>total_lines\<close> is 15.
\<close>

theorem root_lines_counterexample:
  "build_directory_tree [''a.py'', ''sub/b.py'']
       (blame_data (collect example_blame [''a.py'', ''sub/b.py'']))
     = Inr (Some [(''sub'', Node 1 5 [])])
   \<and> children_lines (root_subdirs (Some [(''sub'', Node 1 5 [])])) = 5
   \<and> total_lines (collect example_blame [''a.py'', ''sub/b.py'']) = 15"
  by (simp add: example_collect example_tree children_lines_def root_subdirs_def)

section \<open>Order of the listings\<close>

lemma set_first_seen [simp]: "set (first_seen xs) = set xs"
  by (induction xs) auto

lemma first_seen_snoc:
  "first_seen (xs @ [x]) = (if x \<in> set xs then first_seen xs else first_seen xs @ [x])"
  by (induction xs) auto

lemma keys_fold_from_empty:
  "map fst (fold (\<lambda>x. dict_modify (k x) (f x) d) items []) = first_seen (map k items)"
  by (simp add: keys_fold_dict_modify)

lemma keys_add_path:
  "map fst (add_path ds L subs) =
     (if ds \<noteq> [] \<and> ds ! 0 \<notin> set (map fst subs) then map fst subs @ [ds ! 0]
      else map fst subs)"
  by (cases ds) (simp_all add: keys_dict_modify)

lemma kids_at_tree_add:
  "kids_at (tree_add ds L tree) qs =
     (if strict_prefix qs ds \<and> ds ! length qs \<notin> set (kids_at tree qs)
      then kids_at tree qs @ [ds ! length qs] else kids_at tree qs)"
proof (cases "qs = []")
  case True
  have "root_subdirs (tree_add ds L tree) = add_path ds L (root_subdirs tree)"
    by (simp add: tree_add_def root_subdirs_def)
  then have "kids_at (tree_add ds L tree) [] = map fst (add_path ds L (root_subdirs tree))"
    by (simp add: kids_at_def)
  moreover have "kids_at tree [] = map fst (root_subdirs tree)"
    by (simp add: kids_at_def)
  ultimately show ?thesis
    using True by (simp add: keys_add_path del: set_map) (auto simp: strict_prefix_def)
next
  case False
  show ?thesis
  proof (cases "prefix qs ds")
    case no: False
    with False have "dir_at (tree_add ds L tree) qs = dir_at tree qs"
      by (simp add: dir_at_tree_add)
    with no False show ?thesis
      by (auto simp: kids_at_def strict_prefix_def)
  next
    case True
    define n where "n = (case dir_at tree qs of None \<Rightarrow> Node 0 0 [] | Some n \<Rightarrow> n)"
    have old: "kids_at tree qs = map fst (subdirs n)"
      using False by (simp add: kids_at_def n_def split: option.splits)
    have "dir_at (tree_add ds L tree) qs =
          Some (Node (files n + 1) (lines n + L) (add_path (drop (length qs) ds) L (subdirs n)))"
      using True False by (simp add: dir_at_tree_add n_def Let_def)
    then have new: "kids_at (tree_add ds L tree) qs =
          map fst (add_path (drop (length qs) ds) L (subdirs n))"
      using False by (simp add: kids_at_def)
    from True obtain rest where ds: "ds = qs @ rest" by (auto simp: prefix_def)
    show ?thesis
    proof (cases rest)
      case Nil
      with ds new old show ?thesis by simp
    next
      case (Cons r rest')
      with ds have "strict_prefix qs ds" and "ds ! length qs = r" and "drop (length qs) ds = r # rest'"
        by (simp_all add: strict_prefix_def)
      with new old show ?thesis
        by (simp add: keys_dict_modify)
    qed
  qed
qed

lemma kids_at_fold:
  "kids_at (fold (\<lambda>f. tree_add (d f) (v f)) fs None) qs =
     first_seen (map (\<lambda>f. d f ! length qs) (filter (\<lambda>f. strict_prefix qs (d f)) fs))"
proof (induction fs rule: rev_induct)
  case Nil
  show ?case by (simp add: kids_at_def root_subdirs_def dir_at_def)
next
  case (snoc f fs)
  show ?case
    by (simp add: kids_at_tree_add snoc.IH first_seen_snoc)
qed


text \<open>
  Claim C9.  Each listing is its table sorted by descending line count, and items with
  equal counts keep the order they have in the table: this holds for the extension
  listing, the author listing, the listing of an author's extensions, and the order in
  which \<open>print_directory_tree\<close> visits the subdirectories of a directory.  The order
  of a table is the order of first encounter during aggregation: of the extensions of
  the tracked files, of the authors in the blame items, of the extensions of the files
  an author appears in, and of the next directory name on the paths below a directory.
  So authors A with 100 lines, B with 100 and C with 50, met in that order, are listed
  A, B, C.
\<close>

theorem listings_sorted_stable:
  "sorted_wrt (\<lambda>a b. snd (snd b) \<le> snd (snd a)) (extension_listing s)
   \<and> filter (\<lambda>x. snd (snd x) = n) (extension_listing s)
       = filter (\<lambda>x. snd (snd x) = n) (extension_stats s)
   \<and> sorted_wrt (\<lambda>a b. snd b \<le> snd a) (author_listing s)
   \<and> filter (\<lambda>x. snd x = n) (author_listing s) = filter (\<lambda>x. snd x = n) (author_stats s)
   \<and> sorted_wrt (\<lambda>a b. snd b \<le> snd a) (author_extension_listing s author)
   \<and> filter (\<lambda>x. snd x = n) (author_extension_listing s author)
       = filter (\<lambda>x. snd x = n) (ext_counts_of s author)
   \<and> sorted_wrt (\<lambda>a b. lines (snd b) \<le> lines (snd a)) (sorted_reverse (\<lambda>x. lines (snd x)) subs)
   \<and> filter (\<lambda>x. lines (snd x) = n) (sorted_reverse (\<lambda>x. lines (snd x)) subs)
       = filter (\<lambda>x. lines (snd x) = n) subs
   \<and> map fst (extension_stats (collect run_blame tracked_files))
       = first_seen (map splitext_ext tracked_files)
   \<and> map fst (author_stats (collect run_blame tracked_files))
       = first_seen (map (\<lambda>x. fst (snd x)) (entries run_blame tracked_files))
   \<and> map fst (ext_counts_of (collect run_blame tracked_files) author)
       = first_seen (map fst (filter (\<lambda>x. fst (snd x) = author) (entries run_blame tracked_files)))
   \<and> (\<exists>built. build_directory_tree tracked_files (blame_data (collect run_blame tracked_files))
                 = Inr built
        \<and> kids_at built qs
            = first_seen (map (\<lambda>f. butlast (parts f) ! length qs)
                (filter (\<lambda>f. strict_prefix qs (butlast (parts f))) tracked_files)))"
proof -
  let ?s = "collect run_blame tracked_files"
  have ext: "map fst (extension_stats ?s) = first_seen (map splitext_ext tracked_files)"
    by (simp add: collect_def extension_stats_fold_add_file initial_stats_def
        keys_fold_from_empty)
  have auth: "map fst (author_stats ?s)
      = first_seen (map (\<lambda>x. fst (snd x)) (entries run_blame tracked_files))"
    by (simp add: collect_def author_stats_fold_add_file initial_stats_def keys_fold_from_empty)
  have "ext_counts_of ?s author =
        fold (\<lambda>x. dict_modify (fst x) (\<lambda>n. n + snd (snd x)) 0)
          (filter (\<lambda>x. fst (snd x) = author) (entries run_blame tracked_files)) []"
    by (simp add: ext_counts_of_def collect_def author_ext_stats_fold_add_file
        get_fold_nested initial_stats_def)
  then have authext: "map fst (ext_counts_of ?s author)
      = first_seen (map fst (filter (\<lambda>x. fst (snd x) = author) (entries run_blame tracked_files)))"
    by (simp add: keys_fold_from_empty)
  have dirs: "\<exists>built. build_directory_tree tracked_files (blame_data ?s) = Inr built
        \<and> kids_at built qs
            = first_seen (map (\<lambda>f. butlast (parts f) ! length qs)
                (filter (\<lambda>f. strict_prefix qs (butlast (parts f))) tracked_files))"
    using build_directory_tree_collect [of tracked_files run_blame]
      kids_at_fold [of "\<lambda>f. butlast (parts f)"
        "\<lambda>f. sum_values (get_git_blame_info run_blame f)" tracked_files qs]
    by blast
  have sorted_stable:
    "sorted_wrt (\<lambda>a b. snd (snd b) \<le> snd (snd a)) (extension_listing s)"
    "filter (\<lambda>x. snd (snd x) = n) (extension_listing s)
       = filter (\<lambda>x. snd (snd x) = n) (extension_stats s)"
    "sorted_wrt (\<lambda>a b. snd b \<le> snd a) (author_listing s)"
    "filter (\<lambda>x. snd x = n) (author_listing s) = filter (\<lambda>x. snd x = n) (author_stats s)"
    "sorted_wrt (\<lambda>a b. snd b \<le> snd a) (author_extension_listing s author)"
    "filter (\<lambda>x. snd x = n) (author_extension_listing s author)
       = filter (\<lambda>x. snd x = n) (ext_counts_of s author)"
    "sorted_wrt (\<lambda>a b. lines (snd b) \<le> lines (snd a)) (sorted_reverse (\<lambda>x. lines (snd x)) subs)"
    "filter (\<lambda>x. lines (snd x) = n) (sorted_reverse (\<lambda>x. lines (snd x)) subs)
       = filter (\<lambda>x. lines (snd x) = n) subs"
    unfolding extension_listing_def author_listing_def author_extension_listing_def
      ext_counts_of_def
    by (rule sorted_sorted_reverse stable_sorted_reverse)+
  from sorted_stable ext auth authext dirs show ?thesis
    by (intro conjI)
qed

theorem listings_sorted_stable_witness:
  "author_listing \<lparr>author_ext_stats = [], extension_stats = [],
       author_stats = [(''A'', 100), (''B'', 100), (''C'', 50)], blame_data = [],
       total_lines = 250\<rparr> = [(''A'', 100), (''B'', 100), (''C'', 50)]
   \<and> filter (\<lambda>x. snd x = 100) (author_listing \<lparr>author_ext_stats = [], extension_stats = [],
       author_stats = [(''A'', 100), (''B'', 100), (''C'', 50)], blame_data = [],
       total_lines = 250\<rparr>) = [(''A'', 100), (''B'', 100)]
   \<and> map fst (author_stats (collect example_blame [''a.py'', ''sub/b.py''])) = [''Alice'', ''Bob'']"
proof -
  let ?s = "\<lparr>author_ext_stats = [], extension_stats = [],
       author_stats = [(''A'', 100), (''B'', 100), (''C'', 50 :: int)], blame_data = [],
       total_lines = 250\<rparr>"
  have "author_listing ?s = [(''A'', 100), (''B'', 100), (''C'', 50)]"
    by (simp add: author_listing_def sorted_reverse_def)
  moreover have "filter (\<lambda>x. snd x = 100) (author_listing ?s)
      = filter (\<lambda>x. snd x = 100) (author_stats ?s)"
    using listings_sorted_stable [of ?s 100 "''A''" "[]" "\<lambda>p. None" "[]" "[]"] by blast
  then have "filter (\<lambda>x. snd x = 100) (author_listing ?s) = [(''A'', 100), (''B'', 100)]"
    by simp
  moreover have "map fst (author_stats (collect example_blame [''a.py'', ''sub/b.py''])) = [''Alice'', ''Bob'']"
    by (simp add: example_collect)
  ultimately show ?thesis by simp
qed


text \<open>
  Claim C5.  The claim holds for the formatter and fails for the tree renderer.
  \<open>format_percentage\<close> guards a zero whole; the threshold test of
  \<open>print_directory_tree\<close> divides by \<open>total_lines\<close> unguarded.  A repository whose
  only tracked file is an empty \<open>pkg/__init__.py\<close> has a grand total of 0 and one
  directory node, and the report ends in \<open>ZeroDivisionError\<close>.
\<close>

theorem zero_total_raises:
  "analyze fmt (\<lambda>p. Some []) [''pkg/__init__.py''] = Inl ZeroDivisionError"
  by code_simp

text \<open>
  The zero guard of \<open>format_percentage\<close>, and a second way for the renderer to raise:
  when no tracked file has a directory part, the root never gets its \<open>'subdirs'\<close> key.
\<close>

lemma format_percentage_zero: "format_percentage fmt part 0 = Inr ''0.0%''"
  by (simp add: format_percentage_def)

lemma flat_repository_raises: "analyze fmt example_blame [''a.py''] = Inl TypeError"
  by (simp add: analyze_def collect_def add_file_def add_author_def initial_stats_def
      example_blame_info example_paths dict_set_def sum_values_def Let_def
      build_directory_tree_def tree_add_def print_directory_tree_def)

section \<open>Order of the input\<close>

lemma sum_list_filter_perm:
  fixes g :: "'a \<Rightarrow> int"
  assumes "mset xs = mset ys"
  shows "sum_list (map g (filter P xs)) = sum_list (map g (filter P ys))"
proof -
  from assms have "mset (map g (filter P xs)) = mset (map g (filter P ys))"
    by simp
  then have "sum_mset (mset (map g (filter P xs))) = sum_mset (mset (map g (filter P ys)))"
    by (rule arg_cong)
  then show ?thesis
    by (simp only: sum_mset_sum_list)
qed

lemma sum_list_perm:
  fixes g :: "'a \<Rightarrow> int"
  assumes "mset xs = mset ys"
  shows "sum_list (map g xs) = sum_list (map g ys)"
  using sum_list_filter_perm [OF assms, of g "\<lambda>x. True"] by simp

lemma length_filter_perm:
  assumes "mset xs = mset ys"
  shows "length (filter P xs) = length (filter P ys)"
proof -
  from assms have "size (mset (filter P xs)) = size (mset (filter P ys))"
    by simp
  then show ?thesis by (simp only: size_mset)
qed

lemma entries_perm:
  assumes "mset fs = mset fs'"
  shows "mset (entries run_blame fs) = mset (entries run_blame fs')"
proof -
  let ?g = "\<lambda>f. mset (map (\<lambda>x. (splitext_ext f, x)) (get_git_blame_info run_blame f))"
  have "mset (entries run_blame zs) = sum_mset (mset (map ?g zs))" for zs
    by (induction zs) (simp_all add: entries_def)
  moreover from assms have "mset (map ?g fs) = mset (map ?g fs')"
    by simp
  ultimately show ?thesis by simp
qed

lemma map_of_fold_counts:
  fixes val :: "'a \<Rightarrow> int"
  shows "map_of (fold (\<lambda>x. dict_modify (key x) (\<lambda>n. n + val x) 0) items []) k =
     (if k \<in> key ` set items then Some (sum_list (map val (filter (\<lambda>x. key x = k) items)))
      else None)"
proof -
  let ?d = "fold (\<lambda>x. dict_modify (key x) (\<lambda>n. n + val x) 0) items []"
  have dom: "map_of ?d k = None \<longleftrightarrow> k \<notin> key ` set items"
    using dom_fold_dict_modify [of key "\<lambda>x n. n + val x" 0 items "[]"]
    by (simp add: map_of_eq_None_iff)
  have "count_of ?d k = sum_list (map val (filter (\<lambda>x. key x = k) items))"
    by (simp add: count_of_fold_counts)
  with dom show ?thesis
    by (auto simp: count_of_def split: option.splits)
qed


lemma collect_views:
  "total_lines (collect run_blame fs) =
     sum_list (map (\<lambda>f. sum_values (get_git_blame_info run_blame f)) fs)"
  "map_of (extension_stats (collect run_blame fs)) ext =
     (if ext \<in> splitext_ext ` set fs then
        Some (int (length (filter (\<lambda>f. splitext_ext f = ext) fs)),
              sum_list (map (\<lambda>f. sum_values (get_git_blame_info run_blame f))
                (filter (\<lambda>f. splitext_ext f = ext) fs)))
      else None)"
  "map_of (author_stats (collect run_blame fs)) author =
     (if author \<in> (\<lambda>x. fst (snd x)) ` set (entries run_blame fs) then
        Some (sum_list (map (\<lambda>x. snd (snd x))
               (filter (\<lambda>x. fst (snd x) = author) (entries run_blame fs))))
      else None)"
  "map_of (author_ext_stats (collect run_blame fs)) author = None \<longleftrightarrow>
     author \<notin> (\<lambda>x. fst (snd x)) ` set (entries run_blame fs)"
  "map_of (ext_counts_of (collect run_blame fs) author) ext =
     (if ext \<in> fst ` set (filter (\<lambda>x. fst (snd x) = author) (entries run_blame fs)) then
        Some (sum_list (map (\<lambda>x. snd (snd x))
               (filter (\<lambda>x. fst x = ext)
                  (filter (\<lambda>x. fst (snd x) = author) (entries run_blame fs)))))
      else None)"
proof -
  show "total_lines (collect run_blame fs) =
     sum_list (map (\<lambda>f. sum_values (get_git_blame_info run_blame f)) fs)"
    by (simp add: collect_def total_lines_fold_add_file initial_stats_def)
  show "map_of (extension_stats (collect run_blame fs)) ext =
     (if ext \<in> splitext_ext ` set fs then
        Some (int (length (filter (\<lambda>f. splitext_ext f = ext) fs)),
              sum_list (map (\<lambda>f. sum_values (get_git_blame_info run_blame f))
                (filter (\<lambda>f. splitext_ext f = ext) fs)))
      else None)"
    by (simp add: collect_def extension_stats_fold_add_file map_of_fold_ext initial_stats_def)
  show "map_of (author_stats (collect run_blame fs)) author =
     (if author \<in> (\<lambda>x. fst (snd x)) ` set (entries run_blame fs) then
        Some (sum_list (map (\<lambda>x. snd (snd x))
               (filter (\<lambda>x. fst (snd x) = author) (entries run_blame fs))))
      else None)"
    by (simp only: collect_def author_stats_fold_add_file map_of_fold_counts initial_stats_def
        stats.simps)
  show "map_of (author_ext_stats (collect run_blame fs)) author = None \<longleftrightarrow>
     author \<notin> (\<lambda>x. fst (snd x)) ` set (entries run_blame fs)"
    by (simp add: collect_def author_ext_stats_fold_add_file initial_stats_def
        map_of_eq_None_iff dom_fold_dict_modify)
  have "ext_counts_of (collect run_blame fs) author =
        fold (\<lambda>x. dict_modify (fst x) (\<lambda>n. n + snd (snd x)) 0)
          (filter (\<lambda>x. fst (snd x) = author) (entries run_blame fs)) []"
    by (simp add: ext_counts_of_def collect_def author_ext_stats_fold_add_file
        get_fold_nested initial_stats_def)
  then show "map_of (ext_counts_of (collect run_blame fs) author) ext =
     (if ext \<in> fst ` set (filter (\<lambda>x. fst (snd x) = author) (entries run_blame fs)) then
        Some (sum_list (map (\<lambda>x. snd (snd x))
               (filter (\<lambda>x. fst x = ext)
                  (filter (\<lambda>x. fst (snd x) = author) (entries run_blame fs)))))
      else None)"
    by (simp only: map_of_fold_counts)
qed


lemma tree_views:
  "build_directory_tree fs (blame_data (collect run_blame fs)) =
     Inr (fold (\<lambda>f. tree_add (butlast (parts f)) (sum_values (get_git_blame_info run_blame f)))
            fs None)"
  "files_in (fold (\<lambda>f. tree_add (d f) (v f)) fs None) qs =
     int (length (filter (\<lambda>f. qs \<noteq> [] \<and> prefix qs (d f)) fs))"
  "lines_in (fold (\<lambda>f. tree_add (d f) (v f)) fs None) qs =
     sum_list (map v (filter (\<lambda>f. qs \<noteq> [] \<and> prefix qs (d f)) fs))"
  "dir_at (fold (\<lambda>f. tree_add (d f) (v f)) fs None) qs = None \<longleftrightarrow>
     (\<forall>f \<in> set fs. \<not> (qs \<noteq> [] \<and> prefix qs (d f)))"
proof -
  have none: "files_in None qs = 0" "lines_in None qs = 0" "dir_at None qs = None"
    by (simp_all add: files_in_def lines_in_def dir_at_def)
  show "build_directory_tree fs (blame_data (collect run_blame fs)) =
     Inr (fold (\<lambda>f. tree_add (butlast (parts f)) (sum_values (get_git_blame_info run_blame f)))
            fs None)"
    by (rule build_directory_tree_collect)
  show "files_in (fold (\<lambda>f. tree_add (d f) (v f)) fs None) qs =
     int (length (filter (\<lambda>f. qs \<noteq> [] \<and> prefix qs (d f)) fs))"
    by (simp add: files_in_fold none)
  show "lines_in (fold (\<lambda>f. tree_add (d f) (v f)) fs None) qs =
     sum_list (map v (filter (\<lambda>f. qs \<noteq> [] \<and> prefix qs (d f)) fs))"
    by (simp add: lines_in_fold none)
  show "dir_at (fold (\<lambda>f. tree_add (d f) (v f)) fs None) qs = None \<longleftrightarrow>
     (\<forall>f \<in> set fs. \<not> (qs \<noteq> [] \<and> prefix qs (d f)))"
    by (simp add: dir_at_fold_None none)
qed

text \<open>
  Claim C10.  When the tracked files are processed in another order, \<open>total_lines\<close>
  is the same, the three tables are the same mappings (the same keys with the same
  values; for the author-by-extension table, the same authors, each with the same
  mapping from extension to count), and the two trees have nodes at the same paths
  with the same file count and line count.  The order of the items inside a table,
  which breaks ties in the listings, may differ.
\<close>

theorem aggregation_order_independent:
  assumes "mset tracked_files = mset tracked_files'"
  shows "total_lines (collect run_blame tracked_files) = total_lines (collect run_blame tracked_files')
   \<and> map_of (extension_stats (collect run_blame tracked_files))
       = map_of (extension_stats (collect run_blame tracked_files'))
   \<and> map_of (author_stats (collect run_blame tracked_files))
       = map_of (author_stats (collect run_blame tracked_files'))
   \<and> (\<forall>author.
         (map_of (author_ext_stats (collect run_blame tracked_files)) author = None \<longleftrightarrow>
          map_of (author_ext_stats (collect run_blame tracked_files')) author = None)
         \<and> map_of (ext_counts_of (collect run_blame tracked_files) author)
             = map_of (ext_counts_of (collect run_blame tracked_files') author))
   \<and> (\<exists>built built'.
         build_directory_tree tracked_files (blame_data (collect run_blame tracked_files))
           = Inr built
         \<and> build_directory_tree tracked_files' (blame_data (collect run_blame tracked_files'))
           = Inr built'
         \<and> (\<forall>qs. (dir_at built qs = None \<longleftrightarrow> dir_at built' qs = None)
                \<and> files_in built qs = files_in built' qs
                \<and> lines_in built qs = lines_in built' qs))"
proof -
  let ?es = "entries run_blame tracked_files" and ?es' = "entries run_blame tracked_files'"
  from assms have fs: "set tracked_files = set tracked_files'"
    by (rule mset_eq_setD)
  from assms have es: "mset ?es = mset ?es'"
    by (rule entries_perm)
  then have es_set: "set ?es = set ?es'"
    by (rule mset_eq_setD)
  have es_author: "mset (filter (\<lambda>x. fst (snd x) = author) ?es)
      = mset (filter (\<lambda>x. fst (snd x) = author) ?es')" for author
    using es by simp
  have a: "total_lines (collect run_blame tracked_files) = total_lines (collect run_blame tracked_files')"
    by (simp only: collect_views(1) sum_list_perm [OF assms])
  have b: "map_of (extension_stats (collect run_blame tracked_files))
       = map_of (extension_stats (collect run_blame tracked_files'))"
    by (rule ext)
       (simp only: collect_views(2) fs sum_list_filter_perm [OF assms] length_filter_perm [OF assms])
  have c: "map_of (author_stats (collect run_blame tracked_files))
       = map_of (author_stats (collect run_blame tracked_files'))"
    by (rule ext) (simp only: collect_views(3) es_set sum_list_filter_perm [OF es])
  have d1: "map_of (author_ext_stats (collect run_blame tracked_files)) author = None \<longleftrightarrow>
          map_of (author_ext_stats (collect run_blame tracked_files')) author = None" for author
    by (simp only: collect_views(4) es_set)
  have d2: "map_of (ext_counts_of (collect run_blame tracked_files) author)
             = map_of (ext_counts_of (collect run_blame tracked_files') author)" for author
    by (rule ext)
       (simp only: collect_views(5) mset_eq_setD [OF es_author]
          sum_list_filter_perm [OF es_author])
  let ?d = "\<lambda>f. butlast (parts f)" and ?v = "\<lambda>f. sum_values (get_git_blame_info run_blame f)"
  have e: "(dir_at (fold (\<lambda>f. tree_add (?d f) (?v f)) tracked_files None) qs = None \<longleftrightarrow>
            dir_at (fold (\<lambda>f. tree_add (?d f) (?v f)) tracked_files' None) qs = None)
         \<and> files_in (fold (\<lambda>f. tree_add (?d f) (?v f)) tracked_files None) qs
            = files_in (fold (\<lambda>f. tree_add (?d f) (?v f)) tracked_files' None) qs
         \<and> lines_in (fold (\<lambda>f. tree_add (?d f) (?v f)) tracked_files None) qs
            = lines_in (fold (\<lambda>f. tree_add (?d f) (?v f)) tracked_files' None) qs" for qs
    by (simp only: tree_views(2,3,4) fs sum_list_filter_perm [OF assms]
        length_filter_perm [OF assms])
  from a b c d1 d2 e tree_views(1) [of tracked_files run_blame]
    tree_views(1) [of tracked_files' run_blame]
  show ?thesis by blast
qed

theorem aggregation_order_independent_witness:
  "total_lines (collect example_blame [''sub/b.py'', ''a.py'']) = 15
   \<and> map_of (author_stats (collect example_blame [''sub/b.py'', ''a.py''])) ''Alice'' = Some 10
   \<and> map_of (extension_stats (collect example_blame [''sub/b.py'', ''a.py''])) ''.py'' = Some (2, 15)"
proof -
  have "mset [''a.py'', ''sub/b.py''] = mset [''sub/b.py'', ''a.py'']"
    by simp
  from aggregation_order_independent [OF this, of example_blame]
  have "total_lines (collect example_blame [''sub/b.py'', ''a.py''])
        = total_lines (collect example_blame [''a.py'', ''sub/b.py''])"
    and "map_of (author_stats (collect example_blame [''sub/b.py'', ''a.py'']))
        = map_of (author_stats (collect example_blame [''a.py'', ''sub/b.py'']))"
    and "map_of (extension_stats (collect example_blame [''sub/b.py'', ''a.py'']))
        = map_of (extension_stats (collect example_blame [''a.py'', ''sub/b.py'']))"
    by simp_all
  then show ?thesis
    by (simp add: example_collect)
qed

section \<open>A file without authorship data\<close>

lemma entries_skip:
  "get_git_blame_info run_blame f = [] \<Longrightarrow>
   entries run_blame (fs1 @ f # fs2) = entries run_blame (fs1 @ fs2)"
  by (simp add: entries_def)

lemma filter_absent_key: "k \<notin> e ` set xs \<Longrightarrow> filter (\<lambda>x. e x = k) xs = []"
  by (auto simp: filter_empty_conv)

lemma ext_views:
  "ext_files_of (collect run_blame fs) ext = int (length (filter (\<lambda>f. splitext_ext f = ext) fs))"
  "ext_lines_of (collect run_blame fs) ext =
     sum_list (map (\<lambda>f. sum_values (get_git_blame_info run_blame f))
       (filter (\<lambda>f. splitext_ext f = ext) fs))"
  by (simp_all add: ext_files_of_def ext_lines_of_def collect_views(2) filter_absent_key)

lemma ext_views_skip:
  assumes "get_git_blame_info run_blame f = []"
  shows "ext_lines_of (collect run_blame (fs1 @ f # fs2)) ext
           = ext_lines_of (collect run_blame (fs1 @ fs2)) ext"
    and "ext_files_of (collect run_blame (fs1 @ f # fs2)) ext
           = ext_files_of (collect run_blame (fs1 @ fs2)) ext
             + (if ext = splitext_ext f then 1 else 0)"
  using assms by (simp_all add: ext_views)

lemma analyze_files_analyzed:
  "analyze fmt run_blame fs = Inr (Some r) \<Longrightarrow> files_analyzed r = int (length fs)"
  by (auto simp: analyze_def Let_def split: if_splits sum.splits)

text \<open>
  Claim C4, as amended.  A tracked file whose blame dictionary is empty adds nothing to
  \<open>total_lines\<close>, to the author table, to the author-by-extension table or to any
  line count of the extension table and of the tree.  It is still counted as a file:
  the entry of its extension exists and its file count is one higher than without the
  file, and every directory on its path has a node whose file count is one higher.
  The aggregation loop and the tree builder return for every input, and a report that
  is printed gives the number of all tracked files as the files analyzed.
\<close>

theorem empty_record_counts_as_file:
  assumes "get_git_blame_info run_blame f = []"
  shows "total_lines (collect run_blame (fs1 @ f # fs2)) = total_lines (collect run_blame (fs1 @ fs2))
   \<and> author_stats (collect run_blame (fs1 @ f # fs2)) = author_stats (collect run_blame (fs1 @ fs2))
   \<and> author_ext_stats (collect run_blame (fs1 @ f # fs2))
       = author_ext_stats (collect run_blame (fs1 @ fs2))
   \<and> (\<forall>ext. ext_lines_of (collect run_blame (fs1 @ f # fs2)) ext
               = ext_lines_of (collect run_blame (fs1 @ fs2)) ext
            \<and> ext_files_of (collect run_blame (fs1 @ f # fs2)) ext
               = ext_files_of (collect run_blame (fs1 @ fs2)) ext
                 + (if ext = splitext_ext f then 1 else 0))
   \<and> map_of (extension_stats (collect run_blame (fs1 @ f # fs2))) (splitext_ext f) \<noteq> None
   \<and> (\<exists>built built0.
         build_directory_tree (fs1 @ f # fs2) (blame_data (collect run_blame (fs1 @ f # fs2)))
           = Inr built
         \<and> build_directory_tree (fs1 @ fs2) (blame_data (collect run_blame (fs1 @ fs2)))
           = Inr built0
         \<and> (\<forall>qs. lines_in built qs = lines_in built0 qs
                \<and> files_in built qs
                   = files_in built0 qs
                     + (if qs \<noteq> [] \<and> prefix qs (butlast (parts f)) then 1 else 0)
                \<and> (qs \<noteq> [] \<and> prefix qs (butlast (parts f)) \<longrightarrow> dir_at built qs \<noteq> None)))
   \<and> (\<forall>fmt r. analyze fmt run_blame (fs1 @ f # fs2) = Inr (Some r) \<longrightarrow>
         files_analyzed r = int (length (fs1 @ fs2)) + 1)"
proof -
  let ?s = "collect run_blame (fs1 @ f # fs2)" and ?t = "collect run_blame (fs1 @ fs2)"
  from assms have es: "entries run_blame (fs1 @ f # fs2) = entries run_blame (fs1 @ fs2)"
    by (rule entries_skip)
  have a: "total_lines ?s = total_lines ?t"
    using assms by (simp add: collect_views(1))
  have b: "author_stats ?s = author_stats ?t"
    by (simp only: collect_def author_stats_fold_add_file es)
  have c: "author_ext_stats ?s = author_ext_stats ?t"
    by (simp only: collect_def author_ext_stats_fold_add_file es)
  have d: "ext_lines_of ?s ext = ext_lines_of ?t ext
      \<and> ext_files_of ?s ext = ext_files_of ?t ext + (if ext = splitext_ext f then 1 else 0)" for ext
    using ext_views_skip [OF assms] by simp
  have e: "map_of (extension_stats ?s) (splitext_ext f) \<noteq> None"
    by (simp add: collect_views(2))
  let ?d = "\<lambda>f. butlast (parts f)" and ?v = "\<lambda>f. sum_values (get_git_blame_info run_blame f)"
  have t: "lines_in (fold (\<lambda>f. tree_add (?d f) (?v f)) (fs1 @ f # fs2) None) qs
        = lines_in (fold (\<lambda>f. tree_add (?d f) (?v f)) (fs1 @ fs2) None) qs
      \<and> files_in (fold (\<lambda>f. tree_add (?d f) (?v f)) (fs1 @ f # fs2) None) qs
        = files_in (fold (\<lambda>f. tree_add (?d f) (?v f)) (fs1 @ fs2) None) qs
          + (if qs \<noteq> [] \<and> prefix qs (butlast (parts f)) then 1 else 0)
      \<and> (qs \<noteq> [] \<and> prefix qs (butlast (parts f)) \<longrightarrow>
          dir_at (fold (\<lambda>f. tree_add (?d f) (?v f)) (fs1 @ f # fs2) None) qs \<noteq> None)" for qs
    using assms by (simp only: tree_views(2,3,4)) auto
  have g: "files_analyzed r = int (length (fs1 @ fs2)) + 1"
    if "analyze fmt run_blame (fs1 @ f # fs2) = Inr (Some r)" for fmt r
    using analyze_files_analyzed [OF that] by simp
  from a b c d e t g tree_views(1) [of "fs1 @ f # fs2" run_blame]
    tree_views(1) [of "fs1 @ fs2" run_blame]
  show ?thesis by blast
qed

theorem empty_record_counts_as_file_witness:
  "get_git_blame_info example_blame ''docs/c.py'' = []
   \<and> total_lines (collect example_blame [''a.py'', ''docs/c.py'', ''sub/b.py'']) = 15
   \<and> author_stats (collect example_blame [''a.py'', ''docs/c.py'', ''sub/b.py''])
       = [(''Alice'', 10), (''Bob'', 5)]
   \<and> ext_files_of (collect example_blame [''a.py'', ''docs/c.py'', ''sub/b.py'']) ''.py'' = 3"
proof -
  have empty: "get_git_blame_info example_blame ''docs/c.py'' = []"
    by (rule example_blame_info)
  from empty_record_counts_as_file [OF empty, of "[''a.py'']" "[''sub/b.py'']"]
  have "total_lines (collect example_blame [''a.py'', ''docs/c.py'', ''sub/b.py''])
        = total_lines (collect example_blame [''a.py'', ''sub/b.py''])"
    and "author_stats (collect example_blame [''a.py'', ''docs/c.py'', ''sub/b.py''])
        = author_stats (collect example_blame [''a.py'', ''sub/b.py''])"
    and "ext_files_of (collect example_blame [''a.py'', ''docs/c.py'', ''sub/b.py'']) ''.py''
        = ext_files_of (collect example_blame [''a.py'', ''sub/b.py'']) ''.py''
          + (if ''.py'' = splitext_ext ''docs/c.py'' then 1 else 0)"
    by simp_all
  with empty show ?thesis
    by (simp add: example_collect example_paths ext_files_of_def)
qed

text \<open>
  Claim C4 as stated fails: with \<open>docs/c.py\<close> tracked and its blame failing, the
  extension \<open>.py\<close> has three files, not two, and the tree has a node for \<open>docs\<close>.
\<close>

theorem failed_file_is_counted_counterexample:
  "get_git_blame_info example_blame ''docs/c.py'' = []
   \<and> extension_stats (collect example_blame [''a.py'', ''docs/c.py'', ''sub/b.py''])
       = [(''.py'', 3, 15)]
   \<and> extension_stats (collect example_blame [''a.py'', ''sub/b.py'']) = [(''.py'', 2, 15)]
   \<and> build_directory_tree [''a.py'', ''docs/c.py'', ''sub/b.py'']
         (blame_data (collect example_blame [''a.py'', ''docs/c.py'', ''sub/b.py'']))
       = Inr (Some [(''docs'', Node 1 0 []), (''sub'', Node 1 5 [])])
   \<and> build_directory_tree [''a.py'', ''sub/b.py'']
         (blame_data (collect example_blame [''a.py'', ''sub/b.py'']))
       = Inr (Some [(''sub'', Node 1 5 [])])"
  by (simp add: example_blame_info example_collect example_collect_failed example_tree
      example_tree_failed)

section \<open>The extension of a path\<close>

















section \<open>The rendered tree\<close>




lemma sorted_reverse_Nil [simp]: "sorted_reverse key [] = []"
  by (simp add: sorted_reverse_def)









end
